theory Spec2Isabelle
  imports Main "HOL-Library.Word" "HOL-Library.Log_Nat"
begin

unbundle bit_operations_syntax

section \<open>Values of the JavaScript host\<close>

text \<open>
  A JavaScript string is a sequence of UTF-16 code units; a \<^verbatim>\<open>Buffer\<close> or
  \<^verbatim>\<open>Uint8Array\<close> is a sequence of bytes. An exception thrown by a call (or the rejection
  of the promise an \<^verbatim>\<open>async\<close> function returns) is the left summand of the result.
\<close>

type_synonym byte = "8 word"
type_synonym bytes = "byte list"
type_synonym unit16 = "16 word"
type_synonym jsstring = "unit16 list"

datatype error = SyntaxError | RangeError | URIError | OperationError

text \<open>
  The Number values that \<^verbatim>\<open>parseInt\<close> can return: NaN, the two infinities and the
  integers that are IEEE-754 doubles (the negative zero is identified with zero, which
  every consumer below treats alike).
\<close>

datatype number = NaN | Num int | PosInfinity | NegInfinity

text \<open>String literals of the source are ASCII; \<open>js\<close> reads one as its code units.\<close>

definition js :: "string \<Rightarrow> jsstring" where
  "js s = map of_char s"

subsection \<open>\<^verbatim>\<open>slice\<close> and \<^verbatim>\<open>subarray\<close>\<close>

text \<open>
  \<^verbatim>\<open>String.prototype.slice\<close>, \<^verbatim>\<open>TypedArray.prototype.slice\<close> and
  \<^verbatim>\<open>TypedArray.prototype.subarray\<close> normalise their indices alike: a negative index
  counts from the end, and both are clamped to the length. (A subarray shares the
  buffer's memory; the functions below only read it.)
\<close>

definition relativeIndex :: "int \<Rightarrow> nat \<Rightarrow> nat" where
  "relativeIndex i len = (if i < 0 then nat (max (int len + i) 0) else min (nat i) len)"

definition slice :: "'a list \<Rightarrow> int \<Rightarrow> int \<Rightarrow> 'a list" where
  "slice xs start fin =
     (let from = relativeIndex start (length xs);
          to = relativeIndex fin (length xs)
      in take (to - from) (drop from xs))"

definition sliceFrom :: "'a list \<Rightarrow> int \<Rightarrow> 'a list" where
  "sliceFrom xs start = slice xs start (int (length xs))"

subsection \<open>White space and digits\<close>

definition isStrWhiteSpaceChar :: "unit16 \<Rightarrow> bool" where
  "isStrWhiteSpaceChar c \<longleftrightarrow>
     c \<in> set [0x0009, 0x000A, 0x000B, 0x000C, 0x000D, 0x0020, 0x00A0, 0x1680,
              0x2000, 0x2001, 0x2002, 0x2003, 0x2004, 0x2005, 0x2006, 0x2007,
              0x2008, 0x2009, 0x200A, 0x2028, 0x2029, 0x202F, 0x205F, 0x3000, 0xFEFF]"

definition TrimStart :: "jsstring \<Rightarrow> jsstring" where
  "TrimStart s = dropWhile isStrWhiteSpaceChar s"

definition TrimString :: "jsstring \<Rightarrow> jsstring" where
  "TrimString s = rev (dropWhile isStrWhiteSpaceChar (rev (TrimStart s)))"

definition digitValue :: "unit16 \<Rightarrow> nat option" where
  "digitValue c =
     (if 0x30 \<le> c \<and> c \<le> 0x39 then Some (unat c - 0x30)
      else if 0x61 \<le> c \<and> c \<le> 0x7A then Some (unat c - 0x61 + 10)
      else if 0x41 \<le> c \<and> c \<le> 0x5A then Some (unat c - 0x41 + 10)
      else None)"

definition isRadixDigit :: "nat \<Rightarrow> unit16 \<Rightarrow> bool" where
  "isRadixDigit R c = (case digitValue c of None \<Rightarrow> False | Some d \<Rightarrow> d < R)"

definition radixValue :: "nat \<Rightarrow> jsstring \<Rightarrow> nat" where
  "radixValue R Z = foldl (\<lambda>acc c. acc * R + (case digitValue c of None \<Rightarrow> 0 | Some d \<Rightarrow> d)) 0 Z"

definition digitsMV :: "nat \<Rightarrow> jsstring \<Rightarrow> int option" where
  "digitsMV R Z =
     (if Z \<noteq> [] \<and> list_all (isRadixDigit R) Z then Some (int (radixValue R Z)) else None)"

subsection \<open>\<^verbatim>\<open>BigInt(string)\<close>\<close>

text \<open>
  ECMAScript's StringToBigInt: the text is trimmed of white space; the empty text is 0;
  otherwise it must be decimal digits with an optional sign, or binary, octal or
  hexadecimal digits after \<^verbatim>\<open>0b\<close>, \<^verbatim>\<open>0o\<close>, \<^verbatim>\<open>0x\<close> (either case). Anything else
  makes \<^verbatim>\<open>BigInt\<close> throw a SyntaxError.
\<close>

definition StringToBigInt :: "jsstring \<Rightarrow> int option" where
  "StringToBigInt str =
     (let text = TrimString str in
      if text = [] then Some 0
      else if take 2 text = js ''0x'' \<or> take 2 text = js ''0X'' then digitsMV 16 (drop 2 text)
      else if take 2 text = js ''0o'' \<or> take 2 text = js ''0O'' then digitsMV 8 (drop 2 text)
      else if take 2 text = js ''0b'' \<or> take 2 text = js ''0B'' then digitsMV 2 (drop 2 text)
      else if hd text = 0x2B then digitsMV 10 (tl text)
      else if hd text = 0x2D then map_option uminus (digitsMV 10 (tl text))
      else digitsMV 10 text)"

definition BigInt :: "jsstring \<Rightarrow> error + int" where
  "BigInt s = (case StringToBigInt s of None \<Rightarrow> Inl SyntaxError | Some n \<Rightarrow> Inr n)"

subsection \<open>\<^verbatim>\<open>parseInt(string)\<close>\<close>

text \<open>
  The Number nearest to a natural number (round to nearest, ties to even; \<open>None\<close>
  when the result overflows to Infinity). Below \<open>2 ^ 53\<close> every integer is a double.
\<close>

definition roundToDouble :: "nat \<Rightarrow> nat option" where
  "roundToDouble n =
     (if n < 2 ^ 53 then Some n
      else let e = floorlog 2 n - 53;
               q = n div 2 ^ e;
               r = n mod 2 ^ e;
               q' = (if 2 ^ e < 2 * r \<or> (2 * r = 2 ^ e \<and> odd q) then q + 1 else q)
           in if 2 ^ 1024 \<le> q' * 2 ^ e then None else Some (q' * 2 ^ e))"

definition toNumber :: "int \<Rightarrow> nat \<Rightarrow> number" where
  "toNumber sign mathInt =
     (case roundToDouble mathInt of
        None \<Rightarrow> (if sign < 0 then NegInfinity else PosInfinity)
      | Some v \<Rightarrow> Num (sign * int v))"

text \<open>
  \<^verbatim>\<open>parseInt\<close> with no radix: leading white space is skipped, a sign is read, a
  \<^verbatim>\<open>0x\<close> prefix selects radix 16, and the longest prefix of digits is the value; what
  follows the digits is ignored, and no digit at all gives NaN.
\<close>

definition parseInt :: "jsstring \<Rightarrow> number" where
  "parseInt string =
     (let S = TrimStart string;
          sign = (if S \<noteq> [] \<and> hd S = 0x2D then - 1 else 1);
          S1 = (if S \<noteq> [] \<and> (hd S = 0x2B \<or> hd S = 0x2D) then tl S else S);
          hex = (take 2 S1 = js ''0x'' \<or> take 2 S1 = js ''0X'');
          R = (if hex then 16 else 10);
          S2 = (if hex then drop 2 S1 else S1);
          Z = takeWhile (isRadixDigit R) S2
      in if Z = [] then NaN else toNumber sign (radixValue R Z))"

subsection \<open>Conversions of a Number to machine integers\<close>

definition ToUint32 :: "number \<Rightarrow> 32 word" where
  "ToUint32 v = (case v of Num i \<Rightarrow> word_of_int i | _ \<Rightarrow> 0)"

definition ToUint8 :: "number \<Rightarrow> byte" where
  "ToUint8 v = (case v of Num i \<Rightarrow> word_of_int i | _ \<Rightarrow> 0)"

fun numGreater :: "number \<Rightarrow> int \<Rightarrow> bool" where
  "numGreater NaN m = False"
| "numGreater (Num v) m = (m < v)"
| "numGreater PosInfinity m = True"
| "numGreater NegInfinity m = False"

fun numLess :: "number \<Rightarrow> int \<Rightarrow> bool" where
  "numLess NaN m = False"
| "numLess (Num v) m = (v < m)"
| "numLess PosInfinity m = False"
| "numLess NegInfinity m = True"

subsection \<open>Node's \<^verbatim>\<open>Buffer\<close>\<close>

definition Buffer_alloc :: "nat \<Rightarrow> bytes" where
  "Buffer_alloc n = replicate n 0"

definition Buffer_concat :: "bytes list \<Rightarrow> bytes" where
  "Buffer_concat bs = concat bs"

text \<open>
  \<^verbatim>\<open>buf.writeBigUInt64BE(value, offset)\<close>: a RangeError unless
  \<open>0 \<le> value \<le> 2 ^ 64 - 1\<close>; then the low and the high 32 bits are stored byte by
  byte, each next byte after a signed shift \<^verbatim>\<open>>> 8\<close>.
\<close>

definition writeBigUInt64BE :: "bytes \<Rightarrow> int \<Rightarrow> nat \<Rightarrow> error + bytes" where
  "writeBigUInt64BE buf v offset =
     (if 2 ^ 64 - 1 < v \<or> v < 0 then Inl RangeError
      else if length buf < offset + 8 then Inl RangeError
      else
        let lo = (word_of_int (v AND 0xffffffff) :: 32 word);
            lo1 = signed_drop_bit 8 lo;
            lo2 = signed_drop_bit 8 lo1;
            lo3 = signed_drop_bit 8 lo2;
            hi = (word_of_int (drop_bit 32 v AND 0xffffffff) :: 32 word);
            hi1 = signed_drop_bit 8 hi;
            hi2 = signed_drop_bit 8 hi1;
            hi3 = signed_drop_bit 8 hi2
        in Inr (buf[offset + 7 := ucast lo, offset + 6 := ucast lo1,
                    offset + 5 := ucast lo2, offset + 4 := ucast lo3,
                    offset + 3 := ucast hi, offset + 2 := ucast hi1,
                    offset + 1 := ucast hi2, offset := ucast hi3]))"

text \<open>
  \<^verbatim>\<open>buf.writeUInt32BE(value, offset)\<close>: a RangeError when
  \<^verbatim>\<open>value > 4294967295 || value < 0\<close> (both comparisons are false for NaN, which
  therefore passes and is stored as zero bytes); then four bytes, each next one after an
  unsigned shift \<^verbatim>\<open>>>> 8\<close>.
\<close>

definition writeUInt32BE :: "bytes \<Rightarrow> number \<Rightarrow> nat \<Rightarrow> error + bytes" where
  "writeUInt32BE buf v offset =
     (if numGreater v 4294967295 \<or> numLess v 0 then Inl RangeError
      else if length buf < offset + 4 then Inl RangeError
      else
        let v1 = drop_bit 8 (ToUint32 v);
            v2 = drop_bit 8 v1;
            v3 = drop_bit 8 v2
        in Inr (buf[offset + 3 := ToUint8 v, offset + 2 := ucast v1,
                    offset + 1 := ucast v2, offset := ucast v3]))"

subsection \<open>UTF-8\<close>

definition isHighSurrogate :: "unit16 \<Rightarrow> bool" where
  "isHighSurrogate c \<longleftrightarrow> 0xD800 \<le> c \<and> c \<le> 0xDBFF"

definition isLowSurrogate :: "unit16 \<Rightarrow> bool" where
  "isLowSurrogate c \<longleftrightarrow> 0xDC00 \<le> c \<and> c \<le> 0xDFFF"

definition codePoint :: "unit16 \<Rightarrow> unit16 \<Rightarrow> nat" where
  "codePoint hi lo = 0x10000 + (unat hi - 0xD800) * 0x400 + (unat lo - 0xDC00)"

definition utf8Octets :: "nat \<Rightarrow> bytes" where
  "utf8Octets cp =
     (if cp < 0x80 then [of_nat cp]
      else if cp < 0x800 then [of_nat (0xC0 + cp div 64), of_nat (0x80 + cp mod 64)]
      else if cp < 0x10000 then
        [of_nat (0xE0 + cp div 4096), of_nat (0x80 + cp div 64 mod 64), of_nat (0x80 + cp mod 64)]
      else
        [of_nat (0xF0 + cp div 262144), of_nat (0x80 + cp div 4096 mod 64),
         of_nat (0x80 + cp div 64 mod 64), of_nat (0x80 + cp mod 64)])"

text \<open>
  \<^verbatim>\<open>Buffer.from(s, 'utf-8')\<close> and \<^verbatim>\<open>new TextEncoder().encode(s)\<close>: a surrogate pair is
  one code point, an unpaired surrogate is replaced by U+FFFD.
\<close>

fun utf8Encode :: "jsstring \<Rightarrow> bytes" where
  "utf8Encode [] = []"
| "utf8Encode [c] =
     (if isHighSurrogate c \<or> isLowSurrogate c then utf8Octets 0xFFFD else utf8Octets (unat c))"
| "utf8Encode (c # d # cs) =
     (if isHighSurrogate c \<and> isLowSurrogate d then utf8Octets (codePoint c d) @ utf8Encode cs
      else if isHighSurrogate c \<or> isLowSurrogate c then utf8Octets 0xFFFD @ utf8Encode (d # cs)
      else utf8Octets (unat c) @ utf8Encode (d # cs))"

definition Buffer_from_utf8 :: "jsstring \<Rightarrow> bytes" where
  "Buffer_from_utf8 s = utf8Encode s"

section \<open>PBKDF2 with HMAC-SHA-256\<close>

text \<open>
  \<^verbatim>\<open>crypto.pbkdf2Sync(password, salt, iterations, keylen, 'sha256')\<close> of Node and
  \<^verbatim>\<open>crypto.subtle.deriveBits\<close> with \<^verbatim>\<open>{name: 'PBKDF2', hash: 'SHA-256'}\<close> of the
  browser both compute the function of RFC 8018 over HMAC (RFC 2104) and SHA-256
  (FIPS 180-4). A 32-bit word of the hash is a natural number below \<open>2 ^ 32\<close>, with
  the wrap-around of the addition written out.
\<close>

text \<open>The round constants (the fractional parts of the cube roots of the first 64 primes), in decimal.\<close>

definition K256 :: "nat list" where
  "K256 = [
  1116352408, 1899447441, 3049323471, 3921009573, 961987163, 1508970993, 2453635748, 2870763221,
  3624381080, 310598401, 607225278, 1426881987, 1925078388, 2162078206, 2614888103, 3248222580,
  3835390401, 4022224774, 264347078, 604807628, 770255983, 1249150122, 1555081692, 1996064986,
  2554220882, 2821834349, 2952996808, 3210313671, 3336571891, 3584528711, 113926993, 338241895,
  666307205, 773529912, 1294757372, 1396182291, 1695183700, 1986661051, 2177026350, 2456956037,
  2730485921, 2820302411, 3259730800, 3345764771, 3516065817, 3600352804, 4094571909, 275423344,
  430227734, 506948616, 659060556, 883997877, 958139571, 1322822218, 1537002063, 1747873779,
  1955562222, 2024104815, 2227730452, 2361852424, 2428436474, 2756734187, 3204031479, 3329325298]"

text \<open>The initial hash value (the fractional parts of the square roots of the first eight primes).\<close>

definition H256 :: "nat list" where
  "H256 = [1779033703, 3144134277, 1013904242, 2773480762,
           1359893119, 2600822924, 528734635, 1541459225]"

definition add32 :: "nat \<Rightarrow> nat \<Rightarrow> nat" where
  "add32 x y = (x + y) mod 4294967296"

definition rotr :: "nat \<Rightarrow> nat \<Rightarrow> nat" where
  "rotr n x = x div 2 ^ n + (x mod 2 ^ n) * 2 ^ (32 - n)"

definition Ch :: "nat \<Rightarrow> nat \<Rightarrow> nat \<Rightarrow> nat" where
  "Ch x y z = (x AND y) XOR ((4294967295 - x) AND z)"

definition Maj :: "nat \<Rightarrow> nat \<Rightarrow> nat \<Rightarrow> nat" where
  "Maj x y z = (x AND y) XOR (x AND z) XOR (y AND z)"

definition Sigma0 :: "nat \<Rightarrow> nat" where
  "Sigma0 x = rotr 2 x XOR rotr 13 x XOR rotr 22 x"

definition Sigma1 :: "nat \<Rightarrow> nat" where
  "Sigma1 x = rotr 6 x XOR rotr 11 x XOR rotr 25 x"

definition sigma0 :: "nat \<Rightarrow> nat" where
  "sigma0 x = rotr 7 x XOR rotr 18 x XOR x div 2 ^ 3"

definition sigma1 :: "nat \<Rightarrow> nat" where
  "sigma1 x = rotr 17 x XOR rotr 19 x XOR x div 2 ^ 10"

text \<open>
  The message schedule is kept as a window of sixteen words: the head is the word of the
  current round, and the window moves on by one word per round.
\<close>

fun next_w :: "nat list \<Rightarrow> nat list" where
  "next_w [w0, w1, w2, w3, w4, w5, w6, w7, w8, w9, w10, w11, w12, w13, w14, w15] =
     [w1, w2, w3, w4, w5, w6, w7, w8, w9, w10, w11, w12, w13, w14, w15,
      add32 (add32 (sigma1 w14) w9) (add32 (sigma0 w1) w0)]"
| "next_w w = w"

fun round2 :: "nat \<Rightarrow> nat \<Rightarrow> nat list \<Rightarrow> nat list" where
  "round2 t1 t2 [a, b, c, d, e, f, g, h] = [add32 t1 t2, a, b, c, add32 d t1, e, f, g]"
| "round2 t1 t2 s = s"

fun round1 :: "nat \<Rightarrow> nat \<Rightarrow> nat list \<Rightarrow> nat list" where
  "round1 k w [a, b, c, d, e, f, g, h] =
     round2 (add32 (add32 (add32 h (Sigma1 e)) (add32 (Ch e f g) k)) w)
            (add32 (Sigma0 a) (Maj a b c)) [a, b, c, d, e, f, g, h]"
| "round1 k w s = s"

fun rounds :: "nat list \<Rightarrow> nat list \<Rightarrow> nat list \<Rightarrow> nat list" where
  "rounds [] w s = s"
| "rounds (k # ks) w s = rounds ks (next_w w) (round1 k (hd w) s)"

definition compress :: "nat list \<Rightarrow> nat list \<Rightarrow> nat list" where
  "compress s w = map2 add32 s (rounds K256 w s)"

fun be32 :: "bytes \<Rightarrow> nat list" where
  "be32 (a # b # c # d # r) =
     (((unat a * 256 + unat b) * 256 + unat c) * 256 + unat d) # be32 r"
| "be32 r = []"

function blocks :: "nat list \<Rightarrow> bytes \<Rightarrow> nat list" where
  "blocks s m = (if length m < 64 then s else blocks (compress s (be32 (take 64 m))) (drop 64 m))"
  by pat_completeness auto
termination
  by (relation "measure (\<lambda>(s, m). length m)") auto

declare blocks.simps [simp del]

fun bigEndian :: "nat \<Rightarrow> nat \<Rightarrow> bytes" where
  "bigEndian 0 v = []"
| "bigEndian (Suc n) v = bigEndian n (v div 256) @ [of_nat v]"

definition pad :: "bytes \<Rightarrow> bytes" where
  "pad m = m @ [0x80] @ replicate ((119 - length m mod 64) mod 64) 0 @ bigEndian 8 (8 * length m)"

definition sha256 :: "bytes \<Rightarrow> bytes" where
  "sha256 m = concat (map (bigEndian 4) (blocks H256 (pad m)))"

definition hmacKey :: "bytes \<Rightarrow> bytes" where
  "hmacKey k = (let k' = (if 64 < length k then sha256 k else k) in k' @ replicate (64 - length k') 0)"

definition hmac :: "bytes \<Rightarrow> bytes \<Rightarrow> bytes" where
  "hmac k m =
     sha256 (map (\<lambda>b. b XOR 0x5c) (hmacKey k) @ sha256 (map (\<lambda>b. b XOR 0x36) (hmacKey k) @ m))"

fun pbkdf2F :: "bytes \<Rightarrow> nat \<Rightarrow> bytes \<Rightarrow> bytes \<Rightarrow> bytes" where
  "pbkdf2F p 0 u t = t"
| "pbkdf2F p (Suc n) u t = pbkdf2F p n (hmac p u) (map2 (XOR) t (hmac p u))"

definition pbkdf2Block :: "bytes \<Rightarrow> bytes \<Rightarrow> nat \<Rightarrow> nat \<Rightarrow> bytes" where
  "pbkdf2Block p s c i = pbkdf2F p c (s @ bigEndian 4 i) (replicate 32 0)"

definition PBKDF2_HMAC_SHA256 :: "bytes \<Rightarrow> bytes \<Rightarrow> nat \<Rightarrow> nat \<Rightarrow> bytes" where
  "PBKDF2_HMAC_SHA256 p s c dkLen =
     take dkLen (concat (map (pbkdf2Block p s c) [1..<Suc ((dkLen + 31) div 32)]))"

text \<open>Node: \<^verbatim>\<open>crypto.pbkdf2Sync(password, salt, iterations, keylen, 'sha256')\<close>.\<close>

definition pbkdf2Sync :: "bytes \<Rightarrow> bytes \<Rightarrow> nat \<Rightarrow> nat \<Rightarrow> bytes" where
  "pbkdf2Sync password salt iterations keylen = PBKDF2_HMAC_SHA256 password salt iterations keylen"

text \<open>
  Browser: \<^verbatim>\<open>crypto.subtle.deriveBits({name: 'PBKDF2', salt, iterations, hash: 'SHA-256'},
  key, length)\<close> on the key imported from the password; the promise is rejected with an
  OperationError when \<^verbatim>\<open>length\<close> is zero or no multiple of 8, or \<^verbatim>\<open>iterations\<close> is zero.
\<close>

definition deriveBits :: "bytes \<Rightarrow> nat \<Rightarrow> bytes \<Rightarrow> nat \<Rightarrow> error + bytes" where
  "deriveBits salt iterations key len =
     (if len = 0 \<or> len mod 8 \<noteq> 0 \<or> iterations = 0 then Inl OperationError
      else Inr (PBKDF2_HMAC_SHA256 key salt iterations (len div 8)))"

section \<open>URI encoding of the host\<close>

definition hexDigit :: "nat \<Rightarrow> unit16" where
  "hexDigit n = js ''0123456789ABCDEF'' ! n"

definition percentOctet :: "byte \<Rightarrow> jsstring" where
  "percentOctet b = [0x25, hexDigit (unat b div 16), hexDigit (unat b mod 16)]"

definition percentOctets :: "bytes \<Rightarrow> jsstring" where
  "percentOctets bs = concat (map percentOctet bs)"

definition isAsciiAlphanumeric :: "unit16 \<Rightarrow> bool" where
  "isAsciiAlphanumeric c \<longleftrightarrow>
     (0x41 \<le> c \<and> c \<le> 0x5A) \<or> (0x61 \<le> c \<and> c \<le> 0x7A) \<or> (0x30 \<le> c \<and> c \<le> 0x39)"

text \<open>The characters \<^verbatim>\<open>encodeURIComponent\<close> leaves alone: letters, digits and \<^verbatim>\<open>-_.!~*'()\<close>.\<close>

definition uriUnescaped :: "unit16 \<Rightarrow> bool" where
  "uriUnescaped c \<longleftrightarrow>
     isAsciiAlphanumeric c \<or> c \<in> set [0x2D, 0x5F, 0x2E, 0x21, 0x7E, 0x2A, 0x27, 0x28, 0x29]"

definition prepend :: "jsstring \<Rightarrow> error + jsstring \<Rightarrow> error + jsstring" where
  "prepend x r = (case r of Inl e \<Rightarrow> Inl e | Inr y \<Rightarrow> Inr (x @ y))"

text \<open>
  ECMAScript's Encode: a code unit of the unescaped set is copied; any other code point
  is written as the percent-escapes of its UTF-8 octets; an unpaired surrogate throws a
  URIError.
\<close>

fun Encode :: "jsstring \<Rightarrow> error + jsstring" where
  "Encode [] = Inr []"
| "Encode [c] =
     (if uriUnescaped c then Inr [c]
      else if isHighSurrogate c \<or> isLowSurrogate c then Inl URIError
      else Inr (percentOctets (utf8Octets (unat c))))"
| "Encode (c # d # cs) =
     (if uriUnescaped c then prepend [c] (Encode (d # cs))
      else if isHighSurrogate c \<and> isLowSurrogate d then
        prepend (percentOctets (utf8Octets (codePoint c d))) (Encode cs)
      else if isHighSurrogate c \<or> isLowSurrogate c then Inl URIError
      else prepend (percentOctets (utf8Octets (unat c))) (Encode (d # cs)))"

definition encodeURIComponent :: "jsstring \<Rightarrow> error + jsstring" where
  "encodeURIComponent s = Encode s"

text \<open>
  \<^verbatim>\<open>new URLSearchParams({...}).toString()\<close>: the entries in the order of the object's
  keys, each name and value through the \<^verbatim>\<open>application/x-www-form-urlencoded\<close> byte
  serializer on its UTF-8 octets, joined as \<^verbatim>\<open>name=value\<close> with \<^verbatim>\<open>&\<close>.
\<close>

definition urlencodedByte :: "byte \<Rightarrow> jsstring" where
  "urlencodedByte b =
     (if b = 0x20 then [0x2B]
      else if isAsciiAlphanumeric (ucast b) \<or> b \<in> set [0x2A, 0x2D, 0x2E, 0x5F] then [ucast b]
      else percentOctet b)"

definition urlencodedSerialize :: "jsstring \<Rightarrow> jsstring" where
  "urlencodedSerialize s = concat (map urlencodedByte (utf8Encode s))"

fun joinAmp :: "jsstring list \<Rightarrow> jsstring" where
  "joinAmp [] = []"
| "joinAmp [x] = x"
| "joinAmp (x # y # ys) = x @ [0x26] @ joinAmp (y # ys)"

definition URLSearchParams_toString :: "(jsstring \<times> jsstring) list \<Rightarrow> jsstring" where
  "URLSearchParams_toString params =
     joinAmp (map (\<lambda>(name, val). urlencodedSerialize name @ [0x3D] @ urlencodedSerialize val) params)"

section \<open>\<^verbatim>\<open>entrust-totp.js\<close>: the command-line tool\<close>

text \<open>\<^verbatim>\<open>input.replace(/-/g, '')\<close>: every hyphen is removed.\<close>

definition parseCode :: "jsstring \<Rightarrow> jsstring" where
  "parseCode input = filter (\<lambda>c. c \<noteq> 0x2D) input"

text \<open>
  \<^verbatim>\<open>generateOtpSecret\<close> up to its call of \<^verbatim>\<open>crypto.pbkdf2Sync\<close>: the password and
  the salt it hands to the key derivation, or the exception thrown on the way.
\<close>

definition kdfInput :: "jsstring \<Rightarrow> jsstring \<Rightarrow> jsstring \<Rightarrow> jsstring \<Rightarrow> error + (bytes \<times> bytes)" where
  "kdfInput serial activationCode registrationCode policy =
     (let cleanSerial = parseCode serial;
          cleanActivation = parseCode activationCode;
          cleanRegistration = parseCode registrationCode;
          activationWithoutCheck = slice cleanActivation 0 (- 1);
          registrationWithoutCheck = slice cleanRegistration 0 (- 1)
      in case BigInt activationWithoutCheck of
           Inl e \<Rightarrow> Inl e
         | Inr activationNum \<Rightarrow>
             (case writeBigUInt64BE (Buffer_alloc 8) activationNum 0 of
                Inl e \<Rightarrow> Inl e
              | Inr activationBytes \<Rightarrow>
                  (let activationBytes7 = sliceFrom activationBytes 1;
                       registrationNum = parseInt registrationWithoutCheck
                   in case writeUInt32BE (Buffer_alloc 4) registrationNum 0 of
                        Inl e \<Rightarrow> Inl e
                      | Inr registrationBytes \<Rightarrow>
                          (let rngBytes = slice registrationBytes 2 4;
                               password = Buffer_concat [activationBytes7, rngBytes];
                               password' =
                                 (if policy \<noteq> [] \<and> 0 < length policy
                                  then Buffer_concat [password, Buffer_from_utf8 policy]
                                  else password);
                               salt = Buffer_from_utf8 cleanSerial
                           in Inr (password', salt)))))"

definition generateOtpSecret :: "jsstring \<Rightarrow> jsstring \<Rightarrow> jsstring \<Rightarrow> jsstring \<Rightarrow> error + bytes" where
  "generateOtpSecret serial activationCode registrationCode policy =
     (case kdfInput serial activationCode registrationCode policy of
        Inl e \<Rightarrow> Inl e
      | Inr (password, salt) \<Rightarrow> Inr (pbkdf2Sync password salt 8 16))"

section \<open>The browser variant\<close>

definition stringToUtf8Bytes :: "jsstring \<Rightarrow> bytes" where
  "stringToUtf8Bytes str = utf8Encode str"

text \<open>
  \<^verbatim>\<open>bigIntToBytes\<close>: the loop runs \<^verbatim>\<open>i\<close> from \<^verbatim>\<open>byteLength - 1\<close> down to 0; the
  counter of the model is \<^verbatim>\<open>i + 1\<close>.
\<close>

fun bigIntToBytes_loop :: "nat \<Rightarrow> int \<Rightarrow> bytes \<Rightarrow> bytes" where
  "bigIntToBytes_loop 0 num bs = bs"
| "bigIntToBytes_loop (Suc i) num bs =
     bigIntToBytes_loop i (drop_bit 8 num) (bs[i := word_of_int (num AND 0xFF)])"

definition bigIntToBytes :: "int \<Rightarrow> nat \<Rightarrow> bytes" where
  "bigIntToBytes num byteLength = bigIntToBytes_loop byteLength num (replicate byteLength 0)"

definition uint32ToBytes :: "number \<Rightarrow> bytes" where
  "uint32ToBytes num =
     [ucast (drop_bit 24 (ToUint32 num) AND 0xFF),
      ucast (drop_bit 16 (ToUint32 num) AND 0xFF),
      ucast (drop_bit 8 (ToUint32 num) AND 0xFF),
      ucast (ToUint32 num AND 0xFF)]"

text \<open>
  \<^verbatim>\<open>concatBytes\<close>: \<^verbatim>\<open>result.set(arr, offset)\<close> overwrites \<^verbatim>\<open>arr.length\<close> bytes from
  \<^verbatim>\<open>offset\<close> on.
\<close>

definition typedArraySet :: "bytes \<Rightarrow> bytes \<Rightarrow> nat \<Rightarrow> bytes" where
  "typedArraySet result arr offset = take offset result @ arr @ drop (offset + length arr) result"

fun concatBytes_loop :: "bytes list \<Rightarrow> nat \<Rightarrow> bytes \<Rightarrow> bytes" where
  "concatBytes_loop [] offset result = result"
| "concatBytes_loop (arr # arrays) offset result =
     concatBytes_loop arrays (offset + length arr) (typedArraySet result arr offset)"

definition concatBytes :: "bytes list \<Rightarrow> bytes" where
  "concatBytes arrays =
     (let totalLength = foldl (\<lambda>sum arr. sum + length arr) 0 arrays
      in concatBytes_loop arrays 0 (replicate totalLength 0))"

definition pbkdf2 :: "bytes \<Rightarrow> bytes \<Rightarrow> nat \<Rightarrow> nat \<Rightarrow> error + bytes" where
  "pbkdf2 password salt iterations keyLength = deriveBits salt iterations password (keyLength * 8)"

definition generateOtpSecret_browser ::
  "jsstring \<Rightarrow> jsstring \<Rightarrow> jsstring \<Rightarrow> jsstring \<Rightarrow> error + bytes" where
  "generateOtpSecret_browser serial activationCode registrationCode policy =
     (let cleanSerial = parseCode serial;
          cleanActivation = parseCode activationCode;
          cleanRegistration = parseCode registrationCode;
          activationWithoutCheck = slice cleanActivation 0 (- 1);
          registrationWithoutCheck = slice cleanRegistration 0 (- 1)
      in case BigInt activationWithoutCheck of
           Inl e \<Rightarrow> Inl e
         | Inr activationNum \<Rightarrow>
             (let activationBytes8 = bigIntToBytes activationNum 8;
                  activationBytes7 = sliceFrom activationBytes8 1;
                  registrationNum = parseInt registrationWithoutCheck;
                  registrationBytes = uint32ToBytes registrationNum;
                  rngBytes = slice registrationBytes 2 4;
                  password = concatBytes [activationBytes7, rngBytes];
                  password' =
                    (if policy \<noteq> [] \<and> 0 < length policy
                     then concatBytes [password, stringToUtf8Bytes policy]
                     else password);
                  salt = stringToUtf8Bytes cleanSerial
              in pbkdf2 password' salt 8 16))"

subsection \<open>Base32 and the otpauth URI\<close>

definition alphabet :: jsstring where
  "alphabet = js ''ABCDEFGHIJKLMNOPQRSTUVWXYZ234567''"

text \<open>
  \<^verbatim>\<open>value\<close> only passes through the 32-bit operators \<^verbatim>\<open><<\<close>, \<^verbatim>\<open>|\<close>, \<^verbatim>\<open>>>>\<close> and
  \<^verbatim>\<open>&\<close>, so it is a 32-bit word; \<^verbatim>\<open>bits\<close> is a small count.
\<close>

function base32_while :: "32 word \<Rightarrow> nat \<Rightarrow> jsstring \<Rightarrow> nat \<times> jsstring" where
  "base32_while val bits result =
     (if 5 \<le> bits
      then base32_while val (bits - 5)
             (result @ [alphabet ! unat (drop_bit (bits - 5) val AND 31)])
      else (bits, result))"
  by pat_completeness auto
termination
  by (relation "measure (\<lambda>(val, bits, result). bits)") auto

declare base32_while.simps [simp del]

fun base32_for :: "bytes \<Rightarrow> 32 word \<Rightarrow> nat \<Rightarrow> jsstring \<Rightarrow> 32 word \<times> nat \<times> jsstring" where
  "base32_for [] val bits result = (val, bits, result)"
| "base32_for (d # ds) val bits result =
     (let val' = push_bit 8 val OR ucast d;
          (bits', result') = base32_while val' (bits + 8) result
      in base32_for ds val' bits' result')"

definition base32Encode :: "bytes \<Rightarrow> jsstring" where
  "base32Encode data =
     (let (val, bits, result) = base32_for data 0 0 []
      in if 0 < bits then result @ [alphabet ! unat (push_bit (5 - bits) val AND 31)]
         else result)"

definition generateOtpauthUri :: "jsstring \<Rightarrow> jsstring \<Rightarrow> bytes \<Rightarrow> error + jsstring" where
  "generateOtpauthUri issuer accountName secretBuffer =
     (let secret = base32Encode secretBuffer
      in case encodeURIComponent (issuer @ js '':'' @ accountName) of
           Inl e \<Rightarrow> Inl e
         | Inr label \<Rightarrow>
             (let params = URLSearchParams_toString
                    [(js ''secret'', secret), (js ''issuer'', issuer),
                     (js ''algorithm'', js ''SHA256''), (js ''digits'', js ''6''),
                     (js ''period'', js ''30'')]
              in Inr (js ''otpauth://totp/'' @ label @ js ''?'' @ params)))"

section \<open>Notions of the specification\<close>

text \<open>
  The specification speaks of codes made of digits and hyphens, of the decimal value of a
  digit string, of the big-endian encoding of a value in a fixed number of bytes (the
  function \<open>bigEndian\<close> above) and of well-formed strings.
\<close>

definition isDecimalDigit :: "unit16 \<Rightarrow> bool" where
  "isDecimalDigit c \<longleftrightarrow> 0x30 \<le> c \<and> c \<le> 0x39"

definition digitString :: "jsstring \<Rightarrow> bool" where
  "digitString s = list_all isDecimalDigit s"

definition decimalValue :: "jsstring \<Rightarrow> nat" where
  "decimalValue s = foldl (\<lambda>acc c. 10 * acc + (unat c - 48)) 0 s"

definition codeString :: "jsstring \<Rightarrow> bool" where
  "codeString s = list_all (\<lambda>c. isDecimalDigit c \<or> c = 0x2D) s"

text \<open>What is left of a code once the hyphens and the last character are removed.\<close>

definition residue :: "jsstring \<Rightarrow> jsstring" where
  "residue code = butlast (parseCode code)"

text \<open>\<^verbatim>\<open>String.prototype.isWellFormed\<close>: no unpaired surrogate.\<close>

fun wellFormed :: "jsstring \<Rightarrow> bool" where
  "wellFormed [] = True"
| "wellFormed [c] = (\<not> (isHighSurrogate c \<or> isLowSurrogate c))"
| "wellFormed (c # d # cs) =
     (if isHighSurrogate c \<and> isLowSurrogate d then wellFormed cs
      else \<not> (isHighSurrogate c \<or> isLowSurrogate c) \<and> wellFormed (d # cs))"

text \<open>The characters of the Base32 alphabet of RFC 4648: A to Z and 2 to 7.\<close>

definition isBase32Char :: "unit16 \<Rightarrow> bool" where
  "isBase32Char c \<longleftrightarrow> (0x41 \<le> c \<and> c \<le> 0x5A) \<or> (0x32 \<le> c \<and> c \<le> 0x37)"

lemma slice_drop_last: "slice xs 0 (- 1) = butlast xs"
  by (simp add: slice_def relativeIndex_def Let_def butlast_conv_take nat_diff_distrib' max_def)

lemma sliceFrom_1: "sliceFrom xs 1 = drop 1 xs"
  by (cases xs) (simp_all add: sliceFrom_def slice_def relativeIndex_def Let_def)

lemma slice_2_4: "length xs = 4 \<Longrightarrow> slice xs 2 4 = drop 2 xs"
  by (simp add: slice_def relativeIndex_def Let_def)

lemma digit_unat: "isDecimalDigit c \<Longrightarrow> 48 \<le> unat c \<and> unat c \<le> 57"
  by (simp add: isDecimalDigit_def word_le_nat_alt)

lemma digitValue_decimal: "isDecimalDigit c \<Longrightarrow> digitValue c = Some (unat c - 48)"
  by (simp add: isDecimalDigit_def digitValue_def)

lemma isRadixDigit_decimal: "isDecimalDigit c \<Longrightarrow> isRadixDigit 10 c"
  using digit_unat [of c] by (auto simp add: isRadixDigit_def digitValue_decimal)

lemma digit_not_white: "isDecimalDigit c \<Longrightarrow> \<not> isStrWhiteSpaceChar c"
  by (auto simp add: isDecimalDigit_def isStrWhiteSpaceChar_def)

lemma radixValue_decimal:
  assumes "list_all isDecimalDigit s"
  shows "radixValue 10 s = decimalValue s"
proof -
  have "foldl (\<lambda>acc c. acc * 10 + (case digitValue c of None \<Rightarrow> 0 | Some d \<Rightarrow> d)) a s
      = foldl (\<lambda>acc c. 10 * acc + (unat c - 48)) a s" for a
    using assms by (induction s arbitrary: a) (simp_all add: digitValue_decimal mult.commute)
  then show ?thesis by (simp add: radixValue_def decimalValue_def)
qed

lemma TrimStart_digits: "list_all isDecimalDigit s \<Longrightarrow> TrimStart s = s"
  by (cases s) (simp_all add: TrimStart_def digit_not_white)

lemma TrimString_digits:
  assumes "list_all isDecimalDigit s"
  shows "TrimString s = s"
proof (cases "s = []")
  case True
  then show ?thesis by (simp add: TrimString_def TrimStart_def)
next
  case False
  then have "isDecimalDigit (last s)" using assms by (simp add: list_all_iff)
  then have "dropWhile isStrWhiteSpaceChar (rev s) = rev s"
    using False by (cases "rev s") (auto simp add: digit_not_white last_rev hd_rev dest: arg_cong [where f = hd])
  then show ?thesis using assms by (simp add: TrimString_def TrimStart_digits)
qed

lemma digits_no_prefix:
  assumes "list_all isDecimalDigit s"
  shows "take 2 s \<noteq> js ''0x''" "take 2 s \<noteq> js ''0X''" "take 2 s \<noteq> js ''0o''"
    "take 2 s \<noteq> js ''0O''" "take 2 s \<noteq> js ''0b''" "take 2 s \<noteq> js ''0B''"
proof -
  have "\<not> isDecimalDigit c" if "c \<in> {0x78, 0x58, 0x6F, 0x4F, 0x62, 0x42}" for c
    using that by (auto simp add: isDecimalDigit_def)
  moreover have "isDecimalDigit c" if "take 2 s = [b, c]" for b c
  proof -
    have "c \<in> set (take 2 s)" using that by simp
    then have "c \<in> set s" by (rule in_set_takeD)
    then show ?thesis using assms by (simp add: list_all_iff)
  qed
  ultimately show "take 2 s \<noteq> js ''0x''" "take 2 s \<noteq> js ''0X''" "take 2 s \<noteq> js ''0o''"
    "take 2 s \<noteq> js ''0O''" "take 2 s \<noteq> js ''0b''" "take 2 s \<noteq> js ''0B''"
    by (auto simp add: js_def)
qed

lemma digits_no_sign:
  assumes "list_all isDecimalDigit s" "s \<noteq> []"
  shows "hd s \<noteq> 0x2B" "hd s \<noteq> 0x2D"
proof -
  have "isDecimalDigit (hd s)" using assms by (cases s) simp_all
  then show "hd s \<noteq> 0x2B" "hd s \<noteq> 0x2D" by (auto simp add: isDecimalDigit_def)
qed

lemma digitsMV_decimal:
  "list_all isDecimalDigit s \<Longrightarrow> s \<noteq> [] \<Longrightarrow> digitsMV 10 s = Some (int (decimalValue s))"
  by (simp add: digitsMV_def radixValue_decimal list_all_iff isRadixDigit_decimal)

lemma StringToBigInt_digits:
  assumes "list_all isDecimalDigit s"
  shows "StringToBigInt s = Some (int (decimalValue s))"
proof (cases "s = []")
  case True
  then show ?thesis
    by (simp add: StringToBigInt_def TrimString_def TrimStart_def decimalValue_def)
next
  case False
  then show ?thesis
    using assms digits_no_prefix [OF assms] digits_no_sign [OF assms False]
    by (simp add: StringToBigInt_def TrimString_digits digitsMV_decimal)
qed

lemma BigInt_digits: "list_all isDecimalDigit s \<Longrightarrow> BigInt s = Inr (int (decimalValue s))"
  by (simp add: BigInt_def StringToBigInt_digits)

lemma takeWhile_digits: "list_all isDecimalDigit s \<Longrightarrow> takeWhile (isRadixDigit 10) s = s"
  by (simp add: list_all_iff isRadixDigit_decimal)

lemma parseInt_digits:
  assumes "list_all isDecimalDigit s"
  shows "parseInt s = (if s = [] then NaN else toNumber 1 (decimalValue s))"
proof (cases "s = []")
  case True
  then show ?thesis by (simp add: parseInt_def TrimStart_def js_def)
next
  case False
  then show ?thesis
    using assms digits_no_prefix [OF assms] digits_no_sign [OF assms False]
    by (simp add: parseInt_def TrimStart_digits takeWhile_digits radixValue_decimal)
qed

lemma roundToDouble_small: "n < 2 ^ 53 \<Longrightarrow> roundToDouble n = Some n"
  by (simp add: roundToDouble_def)

lemma roundToDouble_large:
  assumes "2 ^ 32 \<le> n" "roundToDouble n = Some v"
  shows "2 ^ 32 \<le> v"
proof (cases "n < 2 ^ 53")
  case True
  then show ?thesis using assms by (simp add: roundToDouble_def)
next
  case False
  define e where "e = floorlog 2 n - 53"
  define q where "q = n div 2 ^ e"
  define r where "r = n mod 2 ^ e"
  define q' where "q' = (if 2 ^ e < 2 * r \<or> (2 * r = 2 ^ e \<and> odd q) then q + 1 else q)"
  have v: "v = q' * 2 ^ e"
    using assms(2) False unfolding roundToDouble_def Let_def e_def q_def r_def q'_def
    by (auto split: if_splits)
  have n0: "0 < n" using False by simp
  have a: "2 ^ (floorlog 2 n - 1) \<le> n"
    using floorlog_bounds [of n 2] n0 by simp
  have b: "(2::nat) ^ e \<le> 2 ^ (floorlog 2 n - 1)"
    unfolding e_def by (rule power_increasing) simp_all
  from b a have "2 ^ e \<le> n" by (rule order_trans)
  then have q1: "1 \<le> q" unfolding q_def by (simp add: Suc_le_eq div_greater_zero_iff)
  have qq: "q \<le> q'" unfolding q'_def by simp
  have nqr: "n = q * 2 ^ e + r"
    unfolding q_def r_def using div_mult_mod_eq [of n "2 ^ e"] by presburger
  have rlt: "r < 2 ^ e" unfolding r_def by simp
  show ?thesis
  proof (cases "32 \<le> e")
    case True
    then have "(2::nat) ^ 32 \<le> 2 ^ e" by (intro power_increasing) simp_all
    also have "\<dots> \<le> q' * 2 ^ e" using q1 qq by simp
    finally show ?thesis using v by simp
  next
    case e: False
    then have "(2::nat) ^ e < 2 ^ 32" by (intro power_strict_increasing) simp_all
    then have "r < 2 ^ 32" using rlt by simp
    moreover have "(2::nat) ^ 53 \<le> n" using False by simp
    ultimately have "2 ^ 32 \<le> q * 2 ^ e" using nqr by simp
    also have "\<dots> \<le> q' * 2 ^ e" using qq by simp
    finally show ?thesis using v by simp
  qed
qed

lemma div_256_drop_bit: "(a::nat) div 256 = drop_bit 8 a"
  by (simp add: drop_bit_eq_div)

lemma mask32_int: "(4294967295::int) = mask 32"
  by (simp add: mask_eq_exp_minus_1)

lemma update8:
  "[x0, x1, x2, x3, x4, x5, x6, x7][7 := a, 6 := b, 5 := c, 4 := d, 3 := e, 2 := f, 1 := g, 0 := h]
     = [h, g, f, e, d, c, b, a]"
  by (simp add: numeral_eq_Suc)

lemma update4: "[x0, x1, x2, x3][3 := a, 2 := b, 1 := c, 0 := d] = [d, c, b, a]"
  by (simp add: numeral_eq_Suc)

lemma Buffer_alloc_8: "Buffer_alloc 8 = [0, 0, 0, 0, 0, 0, 0, 0]"
  by (simp add: Buffer_alloc_def numeral_eq_Suc)

lemma Buffer_alloc_4: "Buffer_alloc 4 = [0, 0, 0, 0]"
  by (simp add: Buffer_alloc_def numeral_eq_Suc)

lemma bigEndian_numeral:
  "bigEndian (numeral k) v = bigEndian (pred_numeral k) (v div 256) @ [of_nat v]"
  by (simp only: numeral_eq_Suc [of k] bigEndian.simps)

lemma bigEndian_8:
  "bigEndian 8 a = [of_nat (drop_bit 56 a), of_nat (drop_bit 48 a), of_nat (drop_bit 40 a),
     of_nat (drop_bit 32 a), of_nat (drop_bit 24 a), of_nat (drop_bit 16 a),
     of_nat (drop_bit 8 a), of_nat a]"
  by (simp add: bigEndian_numeral div_256_drop_bit)

lemma bigEndian_4:
  "bigEndian 4 a = [of_nat (drop_bit 24 a), of_nat (drop_bit 16 a), of_nat (drop_bit 8 a), of_nat a]"
  by (simp add: bigEndian_numeral div_256_drop_bit)

lemma lo_bytes:
  fixes a :: nat
  defines "lo \<equiv> (word_of_int (int a AND 0xffffffff) :: 32 word)"
  shows "(ucast lo :: byte) = of_nat a"
    and "(ucast (signed_drop_bit 8 lo) :: byte) = of_nat (drop_bit 8 a)"
    and "(ucast (signed_drop_bit 8 (signed_drop_bit 8 lo)) :: byte) = of_nat (drop_bit 16 a)"
    and "(ucast (signed_drop_bit 8 (signed_drop_bit 8 (signed_drop_bit 8 lo))) :: byte)
           = of_nat (drop_bit 24 a)"
  unfolding lo_def mask32_int
  by (rule bit_word_eqI; simp add: bit_simps; fail)+


lemma hi_bytes:
  fixes a :: nat
  defines "hi \<equiv> (word_of_int (drop_bit 32 (int a) AND 0xffffffff) :: 32 word)"
  shows "(ucast hi :: byte) = of_nat (drop_bit 32 a)"
    and "(ucast (signed_drop_bit 8 hi) :: byte) = of_nat (drop_bit 40 a)"
    and "(ucast (signed_drop_bit 8 (signed_drop_bit 8 hi)) :: byte) = of_nat (drop_bit 48 a)"
    and "(ucast (signed_drop_bit 8 (signed_drop_bit 8 (signed_drop_bit 8 hi))) :: byte)
           = of_nat (drop_bit 56 a)"
  unfolding hi_def mask32_int
  by (rule bit_word_eqI; simp add: bit_simps; fail)+

lemma writeBigUInt64BE_ok:
  assumes "a < 2 ^ 64"
  shows "writeBigUInt64BE (Buffer_alloc 8) (int a) 0 = Inr (bigEndian 8 a)"
proof -
  have "\<not> (2 ^ 64 - 1 < int a \<or> int a < 0)" using assms by simp
  moreover have "\<not> length [0::byte, 0, 0, 0, 0, 0, 0, 0] < 0 + 8" by simp
  ultimately show ?thesis
    unfolding writeBigUInt64BE_def Buffer_alloc_8 bigEndian_8 Let_def
    by (simp only: if_False add_0 update8 lo_bytes hi_bytes)
qed

lemma writeBigUInt64BE_range:
  "2 ^ 64 \<le> a \<Longrightarrow> writeBigUInt64BE buf (int a) offset = Inl RangeError"
  by (simp add: writeBigUInt64BE_def)

lemma u32_bytes:
  fixes a :: nat
  defines "w \<equiv> (word_of_int (int a) :: 32 word)"
  shows "(word_of_int (int a) :: byte) = of_nat a"
    and "(ucast (drop_bit 8 w) :: byte) = of_nat (drop_bit 8 a)"
    and "(ucast (drop_bit 8 (drop_bit 8 w)) :: byte) = of_nat (drop_bit 16 a)"
    and "(ucast (drop_bit 8 (drop_bit 8 (drop_bit 8 w))) :: byte) = of_nat (drop_bit 24 a)"
  unfolding w_def
  by (rule bit_word_eqI; simp add: bit_simps; fail)+

lemma writeUInt32BE_ok:
  assumes "a < 2 ^ 32"
  shows "writeUInt32BE (Buffer_alloc 4) (Num (int a)) 0 = Inr (bigEndian 4 a)"
proof -
  have "\<not> (numGreater (Num (int a)) 4294967295 \<or> numLess (Num (int a)) 0)"
    using assms by simp
  moreover have "\<not> length [0::byte, 0, 0, 0] < 0 + 4" by simp
  ultimately show ?thesis
    unfolding writeUInt32BE_def Buffer_alloc_4 bigEndian_4 Let_def ToUint32_def ToUint8_def
    by (simp only: if_False add_0 update4 u32_bytes number.case)
qed

lemma writeUInt32BE_NaN: "writeUInt32BE (Buffer_alloc 4) NaN 0 = Inr (bigEndian 4 0)"
  unfolding writeUInt32BE_def Buffer_alloc_4 bigEndian_4 Let_def ToUint32_def ToUint8_def
  by (simp add: update4)

lemma writeUInt32BE_range:
  assumes "2 ^ 32 \<le> a"
  shows "writeUInt32BE buf (toNumber 1 a) offset = Inl RangeError"
proof (cases "roundToDouble a")
  case None
  then show ?thesis by (simp add: toNumber_def writeUInt32BE_def)
next
  case (Some v)
  then have "2 ^ 32 \<le> v" using assms by (rule roundToDouble_large [rotated])
  then show ?thesis using Some by (simp add: toNumber_def writeUInt32BE_def)
qed

lemma toNumber_small: "a < 2 ^ 32 \<Longrightarrow> toNumber 1 a = Num (int a)"
  by (simp add: toNumber_def roundToDouble_def)

lemma length_bigEndian [simp]: "length (bigEndian n v) = n"
  by (induction n arbitrary: v) simp_all

lemma decimalValue_Nil [simp]: "decimalValue [] = 0"
  by (simp add: decimalValue_def)

lemma registration_bytes:
  assumes "list_all isDecimalDigit s" "decimalValue s < 2 ^ 32"
  shows "writeUInt32BE (Buffer_alloc 4) (parseInt s) 0 = Inr (bigEndian 4 (decimalValue s))"
proof (cases "s = []")
  case True
  then show ?thesis using assms by (simp add: parseInt_digits writeUInt32BE_NaN)
next
  case False
  then show ?thesis
    using assms by (simp add: parseInt_digits toNumber_small writeUInt32BE_ok)
qed

lemma kdfInput_digits:
  assumes "digitString (residue activationCode)" "decimalValue (residue activationCode) < 2 ^ 64"
    and "digitString (residue registrationCode)" "decimalValue (residue registrationCode) < 2 ^ 32"
  shows "kdfInput serial activationCode registrationCode policy =
     Inr (drop 1 (bigEndian 8 (decimalValue (residue activationCode)))
            @ drop 2 (bigEndian 4 (decimalValue (residue registrationCode)))
            @ (if policy = [] then [] else utf8Encode policy),
          utf8Encode (parseCode serial))"
  using assms
  by (simp add: kdfInput_def Let_def slice_drop_last residue_def [symmetric] digitString_def
      BigInt_digits writeBigUInt64BE_ok registration_bytes sliceFrom_1 slice_2_4
      Buffer_concat_def Buffer_from_utf8_def)

lemma generateOtpSecret_digits:
  assumes "digitString (residue activationCode)" "decimalValue (residue activationCode) < 2 ^ 64"
    and "digitString (residue registrationCode)" "decimalValue (residue registrationCode) < 2 ^ 32"
  shows "generateOtpSecret serial activationCode registrationCode policy =
     Inr (PBKDF2_HMAC_SHA256
           (drop 1 (bigEndian 8 (decimalValue (residue activationCode)))
            @ drop 2 (bigEndian 4 (decimalValue (residue registrationCode)))
            @ (if policy = [] then [] else utf8Encode policy))
           (utf8Encode (parseCode serial)) 8 16)"
  by (simp add: generateOtpSecret_def kdfInput_digits [OF assms] pbkdf2Sync_def)

lemma digitsAndHyphens_residue:
  assumes "list_all (\<lambda>c. isDecimalDigit c \<or> c = 0x2D) code"
  shows "digitString (residue code)"
proof -
  have "list_all isDecimalDigit (parseCode code)"
    using assms by (auto simp add: parseCode_def list_all_iff)
  then show ?thesis
    by (auto simp add: residue_def digitString_def list_all_iff dest: in_set_butlastD)
qed

lemma low_byte_int: "(word_of_int (int a AND 0xFF) :: byte) = of_nat a"
proof -
  have m: "(255::int) = mask 8" by (simp add: mask_eq_exp_minus_1)
  show ?thesis unfolding m by (intro bit_word_eqI) (simp add: bit_simps)
qed

lemma bigIntToBytes_loop_eq:
  "i \<le> length bs \<Longrightarrow> bigIntToBytes_loop i (int a) bs = bigEndian i a @ drop i bs"
proof (induction i arbitrary: a bs)
  case 0
  then show ?case by simp
next
  case (Suc i)
  have d: "drop_bit 8 (int a) = int (a div 256)"
    by (simp add: drop_bit_eq_div zdiv_int)
  have "drop i (bs[i := of_nat a]) = (of_nat a :: byte) # drop (Suc i) bs"
    using Suc.prems by (simp add: Cons_nth_drop_Suc [symmetric] upd_conv_take_nth_drop)
  then show ?case
    using Suc.prems by (simp add: d low_byte_int Suc.IH)
qed

lemma bigIntToBytes_eq: "bigIntToBytes (int a) n = bigEndian n a"
  by (simp add: bigIntToBytes_def bigIntToBytes_loop_eq)

lemma mask8_word: "(255 :: 32 word) = mask 8"
  by (simp add: mask_eq_exp_minus_1)

lemma uint32ToBytes_Num: "uint32ToBytes (Num (int a)) = bigEndian 4 a"
  unfolding uint32ToBytes_def bigEndian_4 ToUint32_def number.case mask8_word
  by (simp; intro conjI bit_word_eqI; simp add: bit_simps)

lemma uint32ToBytes_NaN: "uint32ToBytes NaN = bigEndian 4 0"
  unfolding uint32ToBytes_def bigEndian_4 ToUint32_def by simp

lemma foldl_length_sum:
  "foldl (\<lambda>sum arr. sum + length arr) n arrays = n + length (concat arrays)"
  by (induction arrays arbitrary: n) simp_all

lemma concatBytes_loop_eq:
  "length result = offset + length (concat arrays) \<Longrightarrow>
     concatBytes_loop arrays offset result = take offset result @ concat arrays"
proof (induction arrays arbitrary: offset result)
  case Nil
  then show ?case by simp
next
  case (Cons arr arrays)
  have "concatBytes_loop arrays (offset + length arr) (typedArraySet result arr offset)
      = take (offset + length arr) (typedArraySet result arr offset) @ concat arrays"
    using Cons.prems by (intro Cons.IH) (simp add: typedArraySet_def)
  then show ?case using Cons.prems by (simp add: typedArraySet_def)
qed

lemma concatBytes_eq: "concatBytes arrays = concat arrays"
  by (simp add: concatBytes_def foldl_length_sum concatBytes_loop_eq)

lemma pbkdf2_8_16: "pbkdf2 password salt 8 16 = Inr (PBKDF2_HMAC_SHA256 password salt 8 16)"
  by (simp add: pbkdf2_def deriveBits_def)

lemma registration_bytes_browser:
  assumes "list_all isDecimalDigit s" "decimalValue s < 2 ^ 32"
  shows "uint32ToBytes (parseInt s) = bigEndian 4 (decimalValue s)"
proof (cases "s = []")
  case True
  then show ?thesis by (simp add: parseInt_digits uint32ToBytes_NaN)
next
  case False
  then show ?thesis
    using assms by (simp add: parseInt_digits toNumber_small uint32ToBytes_Num)
qed

lemma generateOtpSecret_browser_digits:
  assumes "digitString (residue activationCode)"
    and "digitString (residue registrationCode)" "decimalValue (residue registrationCode) < 2 ^ 32"
  shows "generateOtpSecret_browser serial activationCode registrationCode policy =
     Inr (PBKDF2_HMAC_SHA256
           (drop 1 (bigEndian 8 (decimalValue (residue activationCode)))
            @ drop 2 (bigEndian 4 (decimalValue (residue registrationCode)))
            @ (if policy = [] then [] else utf8Encode policy))
           (utf8Encode (parseCode serial)) 8 16)"
  using assms
  by (simp add: generateOtpSecret_browser_def Let_def slice_drop_last residue_def [symmetric]
      digitString_def BigInt_digits bigIntToBytes_eq registration_bytes_browser sliceFrom_1
      slice_2_4 concatBytes_eq stringToUtf8Bytes_def pbkdf2_8_16)

lemma list8: "length s = 8 \<Longrightarrow> \<exists>a b c d e f g h. s = [a, b, c, d, e, f, g, h]"
  by (simp add: numeral_eq_Suc length_Suc_conv) blast

lemma length_round1: "length s = 8 \<Longrightarrow> length (round1 k w s) = 8"
  using list8 [of s] by auto

lemma length_rounds: "length s = 8 \<Longrightarrow> length (rounds ks w s) = 8"
  by (induction ks arbitrary: w s) (simp_all add: length_round1)

lemma length_compress: "length s = 8 \<Longrightarrow> length (compress s w) = 8"
  by (simp add: compress_def length_rounds)

lemma length_blocks: "length s = 8 \<Longrightarrow> length (blocks s m) = 8"
proof (induction s m rule: blocks.induct)
  case (1 s m)
  show ?case
  proof (cases "length m < 64")
    case True
    then show ?thesis using "1.prems" by (subst blocks.simps) simp
  next
    case False
    then show ?thesis
      using "1.IH" "1.prems" by (subst blocks.simps) (simp add: length_compress)
  qed
qed

lemma length_concat_bigEndian: "length (concat (map (bigEndian n) ws)) = n * length ws"
  by (induction ws) simp_all

lemma length_sha256: "length (sha256 m) = 32"
  by (simp add: sha256_def length_concat_bigEndian length_blocks H256_def)

lemma length_hmac: "length (hmac k m) = 32"
  by (simp add: hmac_def length_sha256)

lemma length_pbkdf2F: "length t = 32 \<Longrightarrow> length (pbkdf2F p n u t) = 32"
  by (induction n arbitrary: u t) (simp_all add: length_hmac)

lemma length_pbkdf2Block: "length (pbkdf2Block p s c i) = 32"
  by (simp add: pbkdf2Block_def length_pbkdf2F)

lemma length_PBKDF2_16: "length (PBKDF2_HMAC_SHA256 p s c 16) = 16"
proof -
  have "[1..<Suc ((16 + 31) div 32)] = [1::nat]" by (simp add: upt_rec)
  then show ?thesis by (simp add: PBKDF2_HMAC_SHA256_def length_pbkdf2Block)
qed

lemma alphabet_chars: "list_all isBase32Char alphabet" "length alphabet = 32"
  by (simp_all add: alphabet_def js_def isBase32Char_def)

lemma index31: "unat ((x :: 32 word) AND 31) < 32"
proof -
  have "unat (x AND 31) \<le> unat (31 :: 32 word)"
    by (rule word_and_le1 [THEN word_le_nat_alt [THEN iffD1]])
  then show ?thesis by simp
qed

lemma alphabet_nth: "isBase32Char (alphabet ! unat ((x :: 32 word) AND 31))"
  using alphabet_chars index31 [of x] by (simp add: list_all_length)

lemma base32_while_chars:
  "list_all isBase32Char result \<Longrightarrow> list_all isBase32Char (snd (base32_while val bits result))"
proof (induction val bits result rule: base32_while.induct)
  case (1 val bits result)
  show ?case
  proof (cases "5 \<le> bits")
    case True
    then show ?thesis
      using "1.IH" "1.prems" by (subst base32_while.simps) (simp add: alphabet_nth)
  next
    case False
    then show ?thesis using "1.prems" by (subst base32_while.simps) simp
  qed
qed

lemma base32_for_chars:
  "list_all isBase32Char result \<Longrightarrow>
     list_all isBase32Char (snd (snd (base32_for data val bits result)))"
proof (induction data arbitrary: val bits result)
  case Nil
  then show ?case by simp
next
  case (Cons d ds)
  obtain bits' result' where w: "base32_while (push_bit 8 val OR ucast d) (bits + 8) result = (bits', result')"
    by (cases "base32_while (push_bit 8 val OR ucast d) (bits + 8) result")
  have "list_all isBase32Char result'"
    using base32_while_chars [OF Cons.prems, of "push_bit 8 val OR ucast d" "bits + 8"] w by simp
  then show ?case using w by (simp add: Cons.IH)
qed

lemma base32Encode_chars: "list_all isBase32Char (base32Encode data)"
proof -
  obtain val bits result where f: "base32_for data 0 0 [] = (val, bits, result)"
    by (cases "base32_for data 0 0 []")
  have "list_all isBase32Char result"
    using base32_for_chars [of "[]" data 0 0] f by simp
  then show ?thesis by (simp add: base32Encode_def f alphabet_nth)
qed

lemma codeString_residue: "codeString code \<Longrightarrow> digitString (residue code)"
  unfolding codeString_def by (rule digitsAndHyphens_residue)

lemma drop2_of_4: "length xs = 4 \<Longrightarrow> drop 2 xs = [xs ! 2, xs ! 3]"
  by (simp add: numeral_eq_Suc length_Suc_conv) auto

lemma drop1_bigEndian: "drop 1 (bigEndian (Suc n) a) = bigEndian n a"
proof (induction n arbitrary: a)
  case 0
  then show ?case by simp
next
  case (Suc n)
  have "drop 1 (bigEndian (Suc n) (a div 256) @ [of_nat a])
      = drop 1 (bigEndian (Suc n) (a div 256)) @ [of_nat a]"
    by (simp only: drop_append length_bigEndian) simp
  then show ?case using Suc.IH [of "a div 256"] by simp
qed

lemma bigEndian_mod: "bigEndian n (a mod 256 ^ n) = bigEndian n a"
proof (induction n arbitrary: a)
  case 0
  then show ?case by simp
next
  case (Suc n)
  have "a mod 256 ^ Suc n div 256 = a div 256 mod 256 ^ n"
    by (simp add: mod_mult2_eq)
  moreover have "(of_nat (a mod 256 ^ Suc n) :: byte) = of_nat a"
    by (simp add: word_of_nat_eq_iff take_bit_eq_mod mod_mod_cancel)
  ultimately show ?case by (simp add: Suc.IH)
qed

section \<open>The claims\<close>

text \<open>
  Claim C1. For every valid input, that is codes made of digits and hyphens whose
  activation residue (hyphens and the last character removed) has a decimal value below
  \<open>2 ^ 56\<close> and whose registration residue has one below \<open>2 ^ 32\<close>,
  \<^verbatim>\<open>generateOtpSecret\<close> returns PBKDF2-HMAC-SHA-256 of the password and the salt with 8
  iterations and 16 output bytes. The password is the low-order 7 bytes of the 8-byte
  big-endian encoding of the activation value, then the bytes at offsets 2 and 3 of the
  4-byte big-endian encoding of the registration value, then the UTF-8 bytes of a
  non-empty policy; the salt is the UTF-8 bytes of the serial without its hyphens (its
  last character is kept). The serial and the policy are arbitrary strings.
\<close>
theorem generateOtpSecret_valid:
  assumes "codeString activationCode" and "codeString registrationCode"
    and "decimalValue (residue activationCode) < 2 ^ 56"
    and "decimalValue (residue registrationCode) < 2 ^ 32"
  shows "generateOtpSecret serial activationCode registrationCode policy =
     Inr (PBKDF2_HMAC_SHA256
           (drop 1 (bigEndian 8 (decimalValue (residue activationCode)))
            @ [bigEndian 4 (decimalValue (residue registrationCode)) ! 2,
               bigEndian 4 (decimalValue (residue registrationCode)) ! 3]
            @ (if policy = [] then [] else utf8Encode policy))
           (utf8Encode (parseCode serial)) 8 16)"
proof -
  have "decimalValue (residue activationCode) < 2 ^ 64"
    using assms(3) by simp
  then show ?thesis
    using generateOtpSecret_digits [OF codeString_residue [OF assms(1)] _
        codeString_residue [OF assms(2)] assms(4), of serial policy]
    by (simp add: drop2_of_4)
qed

lemmas eval_code = js_def parseCode_def residue_def decimalValue_def codeString_def
  digitString_def isDecimalDigit_def bigEndian_numeral

theorem generateOtpSecret_valid_witness:
  "codeString (js ''1234-5678-9012-3456'') \<and> codeString (js ''98765-43210'')
   \<and> decimalValue (residue (js ''1234-5678-9012-3456'')) < 2 ^ 56
   \<and> decimalValue (residue (js ''98765-43210'')) < 2 ^ 32
   \<and> generateOtpSecret (js ''12345-67890'') (js ''1234-5678-9012-3456'') (js ''98765-43210'') (js ''{}'')
     = Inr (PBKDF2_HMAC_SHA256 [0, 112, 72, 134, 13, 223, 121, 104, 177, 123, 125]
             [49, 50, 51, 52, 53, 54, 55, 56, 57, 48] 8 16)"
proof -
  have h: "codeString (js ''1234-5678-9012-3456'')" "codeString (js ''98765-43210'')"
    "decimalValue (residue (js ''1234-5678-9012-3456'')) < 2 ^ 56"
    "decimalValue (residue (js ''98765-43210'')) < 2 ^ 32"
    by (simp_all add: eval_code)
  have p: "drop 1 (bigEndian 8 (decimalValue (residue (js ''1234-5678-9012-3456''))))
            @ [bigEndian 4 (decimalValue (residue (js ''98765-43210''))) ! 2,
               bigEndian 4 (decimalValue (residue (js ''98765-43210''))) ! 3]
            @ (if js ''{}'' = [] then [] else utf8Encode (js ''{}''))
         = [0, 112, 72, 134, 13, 223, 121, 104, 177, 123, 125]"
    by (simp add: eval_code isHighSurrogate_def isLowSurrogate_def utf8Octets_def)
  have u: "utf8Encode (parseCode (js ''12345-67890'')) = [49, 50, 51, 52, 53, 54, 55, 56, 57, 48]"
    by (simp add: eval_code isHighSurrogate_def isLowSurrogate_def utf8Octets_def)
  have "generateOtpSecret (js ''12345-67890'') (js ''1234-5678-9012-3456'') (js ''98765-43210'') (js ''{}'')
     = Inr (PBKDF2_HMAC_SHA256 [0, 112, 72, 134, 13, 223, 121, 104, 177, 123, 125]
             [49, 50, 51, 52, 53, 54, 55, 56, 57, 48] 8 16)"
    using generateOtpSecret_valid [OF h, of "js ''12345-67890''" "js ''{}''"]
    unfolding p u .
  with h show ?thesis by blast
qed

text \<open>
  Claim C2, as stated: an activation residue of \<open>2 ^ 56\<close> or more makes
  \<^verbatim>\<open>generateOtpSecret\<close> raise a RangeError, and no value is truncated into the 7-byte
  field. The code checks the range of the 8-byte write only: the residue
  \<^verbatim>\<open>72057594037927936\<close>, which is \<open>2 ^ 56\<close>, is accepted, and its 7-byte field is
  all zero, as for the value 0.
\<close>

theorem activation_2_56_accepted:
  "codeString (js ''720575940379279360'')
   \<and> 2 ^ 56 \<le> decimalValue (residue (js ''720575940379279360''))
   \<and> generateOtpSecret (js ''12345-67890'') (js ''720575940379279360'') (js ''98765-43210'') []
       = Inr (PBKDF2_HMAC_SHA256 [0, 0, 0, 0, 0, 0, 0, 104, 177]
               [49, 50, 51, 52, 53, 54, 55, 56, 57, 48] 8 16)
   \<and> generateOtpSecret (js ''12345-67890'') (js ''720575940379279360'') (js ''98765-43210'') []
       \<noteq> Inl RangeError"
proof -
  have h: "digitString (residue (js ''720575940379279360''))"
    "decimalValue (residue (js ''720575940379279360'')) < 2 ^ 64"
    "digitString (residue (js ''98765-43210''))"
    "decimalValue (residue (js ''98765-43210'')) < 2 ^ 32"
    by (simp_all add: eval_code)
  have p: "drop 1 (bigEndian 8 (decimalValue (residue (js ''720575940379279360''))))
            @ drop 2 (bigEndian 4 (decimalValue (residue (js ''98765-43210''))))
            @ (if ([]::jsstring) = [] then [] else utf8Encode [])
         = [0, 0, 0, 0, 0, 0, 0, 104, 177]"
    by (simp add: eval_code)
  have u: "utf8Encode (parseCode (js ''12345-67890'')) = [49, 50, 51, 52, 53, 54, 55, 56, 57, 48]"
    by (simp add: eval_code isHighSurrogate_def isLowSurrogate_def utf8Octets_def)
  have g: "generateOtpSecret (js ''12345-67890'') (js ''720575940379279360'') (js ''98765-43210'') []
       = Inr (PBKDF2_HMAC_SHA256 [0, 0, 0, 0, 0, 0, 0, 104, 177]
               [49, 50, 51, 52, 53, 54, 55, 56, 57, 48] 8 16)"
    using generateOtpSecret_digits [OF h, of "js ''12345-67890''" "[]"] unfolding p u .
  have "codeString (js ''720575940379279360'')"
    "2 ^ 56 \<le> decimalValue (residue (js ''720575940379279360''))"
    by (simp_all add: eval_code)
  with g show ?thesis by simp
qed

text \<open>
  Claim C2, amended: an activation residue of \<open>2 ^ 64\<close> or more makes
  \<^verbatim>\<open>generateOtpSecret\<close> raise a RangeError (from \<^verbatim>\<open>writeBigUInt64BE\<close>); a residue
  below \<open>2 ^ 64\<close> raises none, and with a valid registration code the derivation
  succeeds on a 7-byte field that holds the value modulo \<open>2 ^ 56\<close>: the most
  significant byte of the 8-byte encoding is dropped.
\<close>

theorem activation_range:
  assumes "codeString activationCode"
  shows "(2 ^ 64 \<le> decimalValue (residue activationCode) \<longrightarrow>
            generateOtpSecret serial activationCode registrationCode policy = Inl RangeError)
       \<and> (decimalValue (residue activationCode) < 2 ^ 64
            \<and> codeString registrationCode \<and> decimalValue (residue registrationCode) < 2 ^ 32 \<longrightarrow>
            generateOtpSecret serial activationCode registrationCode policy =
              Inr (PBKDF2_HMAC_SHA256
                    (bigEndian 7 (decimalValue (residue activationCode) mod 2 ^ 56)
                     @ drop 2 (bigEndian 4 (decimalValue (residue registrationCode)))
                     @ (if policy = [] then [] else utf8Encode policy))
                    (utf8Encode (parseCode serial)) 8 16))"
proof (intro conjI impI)
  assume big: "2 ^ 64 \<le> decimalValue (residue activationCode)"
  have "list_all isDecimalDigit (slice (parseCode activationCode) 0 (- 1))"
    using codeString_residue [OF assms] by (simp add: slice_drop_last residue_def digitString_def)
  then show "generateOtpSecret serial activationCode registrationCode policy = Inl RangeError"
    using big
    by (simp add: generateOtpSecret_def kdfInput_def Let_def BigInt_digits
        writeBigUInt64BE_range slice_drop_last residue_def)
next
  assume a: "decimalValue (residue activationCode) < 2 ^ 64
     \<and> codeString registrationCode \<and> decimalValue (residue registrationCode) < 2 ^ 32"
  have "bigEndian 7 (decimalValue (residue activationCode) mod 2 ^ 56)
      = drop 1 (bigEndian 8 (decimalValue (residue activationCode)))"
    using bigEndian_mod [of 7 "decimalValue (residue activationCode)"]
      drop1_bigEndian [of 7 "decimalValue (residue activationCode)"]
    by simp
  then show "generateOtpSecret serial activationCode registrationCode policy =
      Inr (PBKDF2_HMAC_SHA256
            (bigEndian 7 (decimalValue (residue activationCode) mod 2 ^ 56)
             @ drop 2 (bigEndian 4 (decimalValue (residue registrationCode)))
             @ (if policy = [] then [] else utf8Encode policy))
            (utf8Encode (parseCode serial)) 8 16)"
    using a generateOtpSecret_digits [OF codeString_residue [OF assms] _ codeString_residue,
        of registrationCode serial policy]
    by simp
qed

theorem activation_range_witness:
  "codeString (js ''184467440737095516160'')
   \<and> 2 ^ 64 \<le> decimalValue (residue (js ''184467440737095516160''))
   \<and> generateOtpSecret (js ''12345-67890'') (js ''184467440737095516160'') (js ''98765-43210'') []
       = Inl RangeError
   \<and> codeString (js ''720575940379279371'')
   \<and> decimalValue (residue (js ''720575940379279371'')) < 2 ^ 64
   \<and> codeString (js ''98765-43210'') \<and> decimalValue (residue (js ''98765-43210'')) < 2 ^ 32
   \<and> generateOtpSecret (js ''12345-67890'') (js ''720575940379279371'') (js ''98765-43210'') []
       = Inr (PBKDF2_HMAC_SHA256 [0, 0, 0, 0, 0, 0, 1, 104, 177]
               [49, 50, 51, 52, 53, 54, 55, 56, 57, 48] 8 16)"
proof -
  have h1: "codeString (js ''184467440737095516160'')"
    "2 ^ 64 \<le> decimalValue (residue (js ''184467440737095516160''))"
    by (simp_all add: eval_code)
  have h2: "codeString (js ''720575940379279371'')"
    "decimalValue (residue (js ''720575940379279371'')) < 2 ^ 64"
    "codeString (js ''98765-43210'')" "decimalValue (residue (js ''98765-43210'')) < 2 ^ 32"
    by (simp_all add: eval_code)
  have p: "bigEndian 7 (decimalValue (residue (js ''720575940379279371'')) mod 2 ^ 56)
            @ drop 2 (bigEndian 4 (decimalValue (residue (js ''98765-43210''))))
            @ (if ([]::jsstring) = [] then [] else utf8Encode [])
         = [0, 0, 0, 0, 0, 0, 1, 104, 177]"
    by (simp add: eval_code)
  have u: "utf8Encode (parseCode (js ''12345-67890'')) = [49, 50, 51, 52, 53, 54, 55, 56, 57, 48]"
    by (simp add: eval_code isHighSurrogate_def isLowSurrogate_def utf8Octets_def)
  have g1: "generateOtpSecret (js ''12345-67890'') (js ''184467440737095516160'') (js ''98765-43210'') []
       = Inl RangeError"
    using activation_range [OF h1(1), of "js ''12345-67890''" "js ''98765-43210''" "[]"] h1(2)
    by blast
  have "generateOtpSecret (js ''12345-67890'') (js ''720575940379279371'') (js ''98765-43210'') [] =
      Inr (PBKDF2_HMAC_SHA256
            (bigEndian 7 (decimalValue (residue (js ''720575940379279371'')) mod 2 ^ 56)
             @ drop 2 (bigEndian 4 (decimalValue (residue (js ''98765-43210''))))
             @ (if ([]::jsstring) = [] then [] else utf8Encode []))
            (utf8Encode (parseCode (js ''12345-67890''))) 8 16)"
    using activation_range [OF h2(1), of "js ''12345-67890''" "js ''98765-43210''" "[]"] h2
    by blast
  then have g2: "generateOtpSecret (js ''12345-67890'') (js ''720575940379279371'') (js ''98765-43210'') []
       = Inr (PBKDF2_HMAC_SHA256 [0, 0, 0, 0, 0, 0, 1, 104, 177]
               [49, 50, 51, 52, 53, 54, 55, 56, 57, 48] 8 16)"
    unfolding p u .
  from h1 h2 g1 g2 show ?thesis by blast
qed

lemma registration_out_of_range:
  assumes "digitString s" "2 ^ 32 \<le> decimalValue s"
  shows "writeUInt32BE buf (parseInt s) offset = Inl RangeError"
proof -
  have "s \<noteq> []" using assms(2) by auto
  then show ?thesis
    using assms by (simp add: digitString_def parseInt_digits writeUInt32BE_range)
qed

text \<open>
  Claim C3. For every registration code whose residue has a decimal value of
  \<open>2 ^ 32\<close> or more, \<^verbatim>\<open>generateOtpSecret\<close> returns no result, whatever the other
  arguments are; the exception is a RangeError whenever the activation code is made of
  digits and hyphens (otherwise the activation code is rejected first).
\<close>

theorem registration_range:
  assumes "codeString registrationCode" "2 ^ 32 \<le> decimalValue (residue registrationCode)"
  shows "(\<exists>e. generateOtpSecret serial activationCode registrationCode policy = Inl e)
       \<and> (codeString activationCode \<longrightarrow>
            generateOtpSecret serial activationCode registrationCode policy = Inl RangeError)"
proof -
  have r: "writeUInt32BE buf (parseInt (slice (parseCode registrationCode) 0 (- 1))) 0
             = Inl RangeError" for buf
    using registration_out_of_range [OF codeString_residue [OF assms(1)] assms(2)]
    by (simp add: slice_drop_last residue_def)
  have 1: "\<exists>e. generateOtpSecret serial activationCode registrationCode policy = Inl e"
    by (simp add: generateOtpSecret_def kdfInput_def Let_def r split: sum.splits)
  have 2: "generateOtpSecret serial activationCode registrationCode policy = Inl RangeError"
    if "codeString activationCode"
  proof -
    have d: "list_all isDecimalDigit (slice (parseCode activationCode) 0 (- 1))"
      using codeString_residue [OF that] by (simp add: slice_drop_last residue_def digitString_def)
    show ?thesis
    proof (cases "decimalValue (slice (parseCode activationCode) 0 (- 1)) < 2 ^ 64")
      case True
      then show ?thesis
        by (simp add: generateOtpSecret_def kdfInput_def Let_def BigInt_digits [OF d]
            writeBigUInt64BE_ok r)
    next
      case False
      then show ?thesis
        by (simp add: generateOtpSecret_def kdfInput_def Let_def BigInt_digits [OF d]
            writeBigUInt64BE_range)
    qed
  qed
  from 1 2 show ?thesis by blast
qed

theorem registration_range_witness:
  "codeString (js ''42949-67296-5'') \<and> 2 ^ 32 \<le> decimalValue (residue (js ''42949-67296-5''))
   \<and> codeString (js ''1234-5678-9012-3456'')
   \<and> generateOtpSecret (js ''12345-67890'') (js ''1234-5678-9012-3456'') (js ''42949-67296-5'') []
       = Inl RangeError"
proof -
  have h: "codeString (js ''42949-67296-5'')" "2 ^ 32 \<le> decimalValue (residue (js ''42949-67296-5''))"
    by (simp_all add: eval_code)
  have a: "codeString (js ''1234-5678-9012-3456'')"
    by (simp add: eval_code)
  show ?thesis
    using registration_range [OF h, of "js ''12345-67890''" "js ''1234-5678-9012-3456''" "[]"] h a
    by blast
qed

text \<open>
  Claim C8. For every valid input, the password handed to the key derivation has
  exactly 9 bytes (7 of the activation field and 2 of the registration field) when the
  policy is the empty string, and 9 more than the UTF-8 length of the policy otherwise.
\<close>

theorem password_length:
  assumes "codeString activationCode" and "codeString registrationCode"
    and "decimalValue (residue activationCode) < 2 ^ 56"
    and "decimalValue (residue registrationCode) < 2 ^ 32"
  shows "\<exists>password salt.
           kdfInput serial activationCode registrationCode policy = Inr (password, salt)
         \<and> length password = (if policy = [] then 9 else 9 + length (utf8Encode policy))"
proof -
  have "decimalValue (residue activationCode) < 2 ^ 64"
    using assms(3) by simp
  then show ?thesis
    using kdfInput_digits [OF codeString_residue [OF assms(1)] _
        codeString_residue [OF assms(2)] assms(4), of serial policy]
    by simp
qed

theorem password_length_witness:
  "codeString (js ''1234-5678-9012-3456'') \<and> codeString (js ''98765-43210'')
   \<and> decimalValue (residue (js ''1234-5678-9012-3456'')) < 2 ^ 56
   \<and> decimalValue (residue (js ''98765-43210'')) < 2 ^ 32
   \<and> (\<exists>password salt.
         kdfInput (js ''12345-67890'') (js ''1234-5678-9012-3456'') (js ''98765-43210'') (js ''{}'')
           = Inr (password, salt)
       \<and> length password = 11)"
proof -
  have h: "codeString (js ''1234-5678-9012-3456'')" "codeString (js ''98765-43210'')"
    "decimalValue (residue (js ''1234-5678-9012-3456'')) < 2 ^ 56"
    "decimalValue (residue (js ''98765-43210'')) < 2 ^ 32"
    by (simp_all add: eval_code)
  have l: "(if js ''{}'' = [] then 9 else 9 + length (utf8Encode (js ''{}''))) = 11"
    by (simp add: eval_code isHighSurrogate_def isLowSurrogate_def utf8Octets_def)
  show ?thesis
    using password_length [OF h, of "js ''12345-67890''" "js ''{}''"] h unfolding l by blast
qed

text \<open>
  Claim C9. For every input whose codes are made of digits and hyphens and lie within
  the documented ranges, the secret derived by the command-line tool and the secret
  derived by the browser variant are the same 16 bytes.
\<close>

theorem node_browser_agree:
  assumes "codeString activationCode" and "codeString registrationCode"
    and "decimalValue (residue activationCode) < 2 ^ 56"
    and "decimalValue (residue registrationCode) < 2 ^ 32"
  shows "generateOtpSecret_browser serial activationCode registrationCode policy
           = generateOtpSecret serial activationCode registrationCode policy
       \<and> (\<exists>key. generateOtpSecret serial activationCode registrationCode policy = Inr key
              \<and> length key = 16)"
proof -
  have "decimalValue (residue activationCode) < 2 ^ 64"
    using assms(3) by simp
  then show ?thesis
    using generateOtpSecret_digits [OF codeString_residue [OF assms(1)] _
        codeString_residue [OF assms(2)] assms(4), of serial policy]
      generateOtpSecret_browser_digits [OF codeString_residue [OF assms(1)]
        codeString_residue [OF assms(2)] assms(4), of serial policy]
    by (simp add: length_PBKDF2_16)
qed

theorem node_browser_agree_witness:
  "codeString (js ''1234-5678-9012-3456'') \<and> codeString (js ''98765-43210'')
   \<and> decimalValue (residue (js ''1234-5678-9012-3456'')) < 2 ^ 56
   \<and> decimalValue (residue (js ''98765-43210'')) < 2 ^ 32
   \<and> generateOtpSecret_browser (js ''12345-67890'') (js ''1234-5678-9012-3456'') (js ''98765-43210'') []
       = generateOtpSecret (js ''12345-67890'') (js ''1234-5678-9012-3456'') (js ''98765-43210'') []"
proof -
  have h: "codeString (js ''1234-5678-9012-3456'')" "codeString (js ''98765-43210'')"
    "decimalValue (residue (js ''1234-5678-9012-3456'')) < 2 ^ 56"
    "decimalValue (residue (js ''98765-43210'')) < 2 ^ 32"
    by (simp_all add: eval_code)
  show ?thesis
    using node_browser_agree [OF h, of "js ''12345-67890''" "[]"] h by blast
qed

text \<open>
  Claim C10. When the activation code without its hyphens is a single character, the
  residue is the empty string: \<^verbatim>\<open>BigInt\<close> reads it as 0 and raises nothing, and with a
  valid registration code the derivation succeeds on an all-zero 7-byte activation
  field. \<^verbatim>\<open>generateOtpSecret\<close> checks no length.
\<close>

theorem single_character_activation:
  assumes "length (parseCode activationCode) = 1"
    and "codeString registrationCode" and "decimalValue (residue registrationCode) < 2 ^ 32"
  shows "BigInt (slice (parseCode activationCode) 0 (- 1)) = Inr 0
       \<and> generateOtpSecret serial activationCode registrationCode policy =
           Inr (PBKDF2_HMAC_SHA256
                 (replicate 7 0
                  @ drop 2 (bigEndian 4 (decimalValue (residue registrationCode)))
                  @ (if policy = [] then [] else utf8Encode policy))
                 (utf8Encode (parseCode serial)) 8 16)"
proof -
  have e: "residue activationCode = []"
    using assms(1) by (cases "parseCode activationCode") (simp_all add: residue_def)
  have "replicate 7 (0::byte) = [0, 0, 0, 0, 0, 0, 0]"
    by (simp add: numeral_eq_Suc)
  then have z: "drop (Suc 0) (bigEndian 8 0) = replicate 7 0"
    by (simp add: bigEndian_numeral)
  have "BigInt (slice (parseCode activationCode) 0 (- 1)) = Inr 0"
    using e by (simp add: slice_drop_last residue_def BigInt_digits)
  moreover have "generateOtpSecret serial activationCode registrationCode policy =
           Inr (PBKDF2_HMAC_SHA256
                 (replicate 7 0
                  @ drop 2 (bigEndian 4 (decimalValue (residue registrationCode)))
                  @ (if policy = [] then [] else utf8Encode policy))
                 (utf8Encode (parseCode serial)) 8 16)"
    using generateOtpSecret_digits [OF _ _ codeString_residue [OF assms(2)] assms(3),
        of activationCode serial policy]
    by (simp add: e digitString_def z)
  ultimately show ?thesis by blast
qed

theorem single_character_activation_witness:
  "length (parseCode (js ''-7'')) = 1
   \<and> codeString (js ''98765-43210'') \<and> decimalValue (residue (js ''98765-43210'')) < 2 ^ 32
   \<and> BigInt (slice (parseCode (js ''-7'')) 0 (- 1)) = Inr 0
   \<and> generateOtpSecret (js ''12345-67890'') (js ''-7'') (js ''98765-43210'') [] =
       Inr (PBKDF2_HMAC_SHA256 [0, 0, 0, 0, 0, 0, 0, 104, 177]
             [49, 50, 51, 52, 53, 54, 55, 56, 57, 48] 8 16)"
proof -
  have h: "length (parseCode (js ''-7'')) = 1"
    "codeString (js ''98765-43210'')" "decimalValue (residue (js ''98765-43210'')) < 2 ^ 32"
    by (simp_all add: eval_code)
  have r: "replicate 7 (0::byte) = [0, 0, 0, 0, 0, 0, 0]"
    by (simp add: numeral_eq_Suc)
  have p: "replicate 7 0 @ drop 2 (bigEndian 4 (decimalValue (residue (js ''98765-43210''))))
            @ (if ([]::jsstring) = [] then [] else utf8Encode [])
         = [0, 0, 0, 0, 0, 0, 0, 104, 177]"
    unfolding r by (simp add: eval_code)
  have u: "utf8Encode (parseCode (js ''12345-67890'')) = [49, 50, 51, 52, 53, 54, 55, 56, 57, 48]"
    by (simp add: eval_code isHighSurrogate_def isLowSurrogate_def utf8Octets_def)
  show ?thesis
    using single_character_activation [OF h, of "js ''12345-67890''" "[]"] h unfolding p u
    by blast
qed

lemma residue_snoc: "c \<noteq> 0x2D \<Longrightarrow> slice (parseCode (code @ [c])) 0 (- 1) = parseCode code"
  by (simp add: slice_drop_last parseCode_def)

text \<open>
  Claim C7, as stated: two codes that differ only in their last character give the same
  secret. The last character of a code may be a hyphen, and then the character dropped
  as the check digit is the digit before it: the registration codes
  \<^verbatim>\<open>42949672965\<close> and \<^verbatim>\<open>4294967296-\<close> differ in their last character only, yet the
  first is out of range and the second gives a secret; and the activation codes
  \<^verbatim>\<open>1234-5678-9012-3456\<close> and \<^verbatim>\<open>1234-5678-9012-345-\<close> give different passwords.
\<close>

theorem trailing_hyphen_changes_result:
  "generateOtpSecret (js ''12345-67890'') (js ''1234-5678-9012-3456'') (js ''4294967296'' @ js ''5'') []
     = Inl RangeError
   \<and> generateOtpSecret (js ''12345-67890'') (js ''1234-5678-9012-3456'') (js ''4294967296'' @ js ''-'') []
     = Inr (PBKDF2_HMAC_SHA256 [0, 112, 72, 134, 13, 223, 121, 153, 153]
             [49, 50, 51, 52, 53, 54, 55, 56, 57, 48] 8 16)
   \<and> kdfInput (js ''12345-67890'') (js ''1234-5678-9012-345'' @ js ''6'') (js ''98765-43210'') []
     = Inr ([0, 112, 72, 134, 13, 223, 121, 104, 177], [49, 50, 51, 52, 53, 54, 55, 56, 57, 48])
   \<and> kdfInput (js ''12345-67890'') (js ''1234-5678-9012-345'' @ js ''-'') (js ''98765-43210'') []
     = Inr ([0, 11, 58, 115, 206, 47, 242, 104, 177], [49, 50, 51, 52, 53, 54, 55, 56, 57, 48])"
proof -
  have u: "utf8Encode (parseCode (js ''12345-67890'')) = [49, 50, 51, 52, 53, 54, 55, 56, 57, 48]"
    by (simp add: eval_code isHighSurrogate_def isLowSurrogate_def utf8Octets_def)
  have a: "digitString (residue (js ''1234-5678-9012-3456''))"
    "decimalValue (residue (js ''1234-5678-9012-3456'')) < 2 ^ 64"
    "codeString (js ''1234-5678-9012-3456'')"
    by (simp_all add: eval_code)
  have r1: "codeString (js ''4294967296'' @ js ''5'')"
    "2 ^ 32 \<le> decimalValue (residue (js ''4294967296'' @ js ''5''))"
    by (simp_all add: eval_code)
  have 1: "generateOtpSecret (js ''12345-67890'') (js ''1234-5678-9012-3456'')
      (js ''4294967296'' @ js ''5'') [] = Inl RangeError"
    using r1(2) a(1,2) codeString_residue [OF r1(1)]
    by (simp add: generateOtpSecret_def kdfInput_def Let_def slice_drop_last
        residue_def [symmetric] digitString_def BigInt_digits writeBigUInt64BE_ok
        registration_out_of_range)
  have r2: "digitString (residue (js ''4294967296'' @ js ''-''))"
    "decimalValue (residue (js ''4294967296'' @ js ''-'')) < 2 ^ 32"
    by (simp_all add: eval_code)
  have p2: "drop 1 (bigEndian 8 (decimalValue (residue (js ''1234-5678-9012-3456''))))
            @ drop 2 (bigEndian 4 (decimalValue (residue (js ''4294967296'' @ js ''-''))))
            @ (if ([]::jsstring) = [] then [] else utf8Encode [])
         = [0, 112, 72, 134, 13, 223, 121, 153, 153]"
    by (simp add: eval_code)
  have 2: "generateOtpSecret (js ''12345-67890'') (js ''1234-5678-9012-3456'')
      (js ''4294967296'' @ js ''-'') []
     = Inr (PBKDF2_HMAC_SHA256 [0, 112, 72, 134, 13, 223, 121, 153, 153]
             [49, 50, 51, 52, 53, 54, 55, 56, 57, 48] 8 16)"
    using generateOtpSecret_digits [OF a(1,2) r2, of "js ''12345-67890''" "[]"] unfolding p2 u .
  have r: "digitString (residue (js ''98765-43210''))"
    "decimalValue (residue (js ''98765-43210'')) < 2 ^ 32"
    by (simp_all add: eval_code)
  have a3: "digitString (residue (js ''1234-5678-9012-345'' @ js ''6''))"
    "decimalValue (residue (js ''1234-5678-9012-345'' @ js ''6'')) < 2 ^ 64"
    by (simp_all add: eval_code)
  have p3: "drop 1 (bigEndian 8 (decimalValue (residue (js ''1234-5678-9012-345'' @ js ''6''))))
            @ drop 2 (bigEndian 4 (decimalValue (residue (js ''98765-43210''))))
            @ (if ([]::jsstring) = [] then [] else utf8Encode [])
         = [0, 112, 72, 134, 13, 223, 121, 104, 177]"
    by (simp add: eval_code)
  have 3: "kdfInput (js ''12345-67890'') (js ''1234-5678-9012-345'' @ js ''6'') (js ''98765-43210'') []
     = Inr ([0, 112, 72, 134, 13, 223, 121, 104, 177], [49, 50, 51, 52, 53, 54, 55, 56, 57, 48])"
    using kdfInput_digits [OF a3 r, of "js ''12345-67890''" "[]"] unfolding p3 u .
  have a4: "digitString (residue (js ''1234-5678-9012-345'' @ js ''-''))"
    "decimalValue (residue (js ''1234-5678-9012-345'' @ js ''-'')) < 2 ^ 64"
    by (simp_all add: eval_code)
  have p4: "drop 1 (bigEndian 8 (decimalValue (residue (js ''1234-5678-9012-345'' @ js ''-''))))
            @ drop 2 (bigEndian 4 (decimalValue (residue (js ''98765-43210''))))
            @ (if ([]::jsstring) = [] then [] else utf8Encode [])
         = [0, 11, 58, 115, 206, 47, 242, 104, 177]"
    by (simp add: eval_code)
  have 4: "kdfInput (js ''12345-67890'') (js ''1234-5678-9012-345'' @ js ''-'') (js ''98765-43210'') []
     = Inr ([0, 11, 58, 115, 206, 47, 242, 104, 177], [49, 50, 51, 52, 53, 54, 55, 56, 57, 48])"
    using kdfInput_digits [OF a4 r, of "js ''12345-67890''" "[]"] unfolding p4 u .
  from 1 2 3 4 show ?thesis by blast
qed

text \<open>
  Claim C7, amended: two activation codes, and likewise two registration codes, that
  differ only in a last character that is no hyphen in either give the same outcome of
  \<^verbatim>\<open>generateOtpSecret\<close>, the other arguments being the same: the last character is
  dropped and never read.
\<close>

theorem check_digit_discarded:
  assumes "c \<noteq> 0x2D" and "d \<noteq> 0x2D"
  shows "generateOtpSecret serial (code @ [c]) registrationCode policy
           = generateOtpSecret serial (code @ [d]) registrationCode policy
       \<and> generateOtpSecret serial activationCode (code @ [c]) policy
           = generateOtpSecret serial activationCode (code @ [d]) policy"
  unfolding generateOtpSecret_def kdfInput_def Let_def
    residue_snoc [OF assms(1)] residue_snoc [OF assms(2)]
  by simp

theorem check_digit_discarded_witness:
  "(0x36 :: unit16) \<noteq> 0x2D \<and> (0x39 :: unit16) \<noteq> 0x2D
   \<and> generateOtpSecret (js ''12345-67890'') (js ''1234-5678-9012-345'' @ [0x36]) (js ''98765-43210'') []
       = generateOtpSecret (js ''12345-67890'') (js ''1234-5678-9012-345'' @ [0x39]) (js ''98765-43210'') []
   \<and> generateOtpSecret (js ''12345-67890'') (js ''98765-43210'') (js ''1234-5678-9012-345'' @ [0x36]) []
       = generateOtpSecret (js ''12345-67890'') (js ''98765-43210'') (js ''1234-5678-9012-345'' @ [0x39]) []"
proof -
  have h: "(0x36 :: unit16) \<noteq> 0x2D" "(0x39 :: unit16) \<noteq> 0x2D" by simp_all
  show ?thesis
    using check_digit_discarded [OF h, of "js ''12345-67890''" "js ''1234-5678-9012-345''"
        "js ''98765-43210''" "[]" "js ''98765-43210''"] h
    by blast
qed

lemmas eval_parse = TrimStart_def TrimString_def isStrWhiteSpaceChar_def isRadixDigit_def
  digitValue_def radixValue_def digitsMV_def toNumber_def roundToDouble_def

text \<open>
  Claim C4 says that a residue with a character that is no digit makes
  \<^verbatim>\<open>generateOtpSecret\<close> raise a parse error, and that no numeric prefix of a registration
  residue is ever used. The code reads the registration residue with \<^verbatim>\<open>parseInt\<close>,
  which stops at the first character that is no digit: the registration code
  \<^verbatim>\<open>12a45-67890\<close> is read as 12 and gives the secret of the registration code
  \<^verbatim>\<open>12-0\<close>. \<^verbatim>\<open>BigInt\<close> rejects the activation residue \<^verbatim>\<open>12a\<close>, but reads the
  residue \<^verbatim>\<open>0x1F\<close> as the hexadecimal 31.
\<close>

theorem nondigit_residue_accepted:
  "generateOtpSecret (js ''12345-67890'') (js ''1234-5678-9012-3456'') (js ''12a45-67890'') []
     = Inr (PBKDF2_HMAC_SHA256 [0, 112, 72, 134, 13, 223, 121, 0, 12]
             [49, 50, 51, 52, 53, 54, 55, 56, 57, 48] 8 16)
   \<and> generateOtpSecret (js ''12345-67890'') (js ''1234-5678-9012-3456'') (js ''12-0'') []
     = Inr (PBKDF2_HMAC_SHA256 [0, 112, 72, 134, 13, 223, 121, 0, 12]
             [49, 50, 51, 52, 53, 54, 55, 56, 57, 48] 8 16)
   \<and> generateOtpSecret (js ''12345-67890'') (js ''0x1F5'') (js ''98765-43210'') []
     = Inr (PBKDF2_HMAC_SHA256 [0, 0, 0, 0, 0, 0, 31, 104, 177]
             [49, 50, 51, 52, 53, 54, 55, 56, 57, 48] 8 16)
   \<and> generateOtpSecret (js ''12345-67890'') (js ''12a5'') (js ''98765-43210'') []
     = Inl SyntaxError"
proof -
  have u: "Buffer_from_utf8 (parseCode (js ''12345-67890'')) = [49, 50, 51, 52, 53, 54, 55, 56, 57, 48]"
    by (simp add: Buffer_from_utf8_def eval_code isHighSurrogate_def isLowSurrogate_def utf8Octets_def)
  have a: "BigInt (slice (parseCode (js ''1234-5678-9012-3456'')) 0 (- 1)) = Inr 123456789012345"
    using BigInt_digits [of "residue (js ''1234-5678-9012-3456'')"]
    by (simp add: slice_drop_last eval_code)
  have wa: "writeBigUInt64BE (Buffer_alloc 8) 123456789012345 0 = Inr [0, 0, 112, 72, 134, 13, 223, 121]"
    using writeBigUInt64BE_ok [of 123456789012345] by (simp add: bigEndian_numeral)
  have r1: "parseInt (slice (parseCode (js ''12a45-67890'')) 0 (- 1)) = Num 12"
    by (simp add: slice_drop_last parseInt_def js_def parseCode_def eval_parse)
  have r2: "parseInt (slice (parseCode (js ''12-0'')) 0 (- 1)) = Num 12"
    by (simp add: slice_drop_last parseInt_def js_def parseCode_def eval_parse)
  have wr: "writeUInt32BE (Buffer_alloc 4) (Num 12) 0 = Inr [0, 0, 0, 12]"
    using writeUInt32BE_ok [of 12] by (simp add: bigEndian_numeral)
  have s1: "sliceFrom [0, 0, 112, 72, 134, 13, 223, 121 :: byte] 1 = [0, 112, 72, 134, 13, 223, 121]"
    by (simp add: sliceFrom_1)
  have s2: "slice [0, 0, 0, 12 :: byte] 2 4 = [0, 12]"
    by (simp add: slice_2_4)
  have 1: "generateOtpSecret (js ''12345-67890'') (js ''1234-5678-9012-3456'') (js ''12a45-67890'') []
     = Inr (PBKDF2_HMAC_SHA256 [0, 112, 72, 134, 13, 223, 121, 0, 12]
             [49, 50, 51, 52, 53, 54, 55, 56, 57, 48] 8 16)"
    by (simp add: generateOtpSecret_def kdfInput_def Let_def a r1 wa wr s1 s2 u Buffer_concat_def pbkdf2Sync_def)
  have 2: "generateOtpSecret (js ''12345-67890'') (js ''1234-5678-9012-3456'') (js ''12-0'') []
     = Inr (PBKDF2_HMAC_SHA256 [0, 112, 72, 134, 13, 223, 121, 0, 12]
             [49, 50, 51, 52, 53, 54, 55, 56, 57, 48] 8 16)"
    by (simp add: generateOtpSecret_def kdfInput_def Let_def a r2 wa wr s1 s2 u Buffer_concat_def pbkdf2Sync_def)
  have b: "BigInt (slice (parseCode (js ''0x1F5'')) 0 (- 1)) = Inr 31"
    by (simp add: slice_drop_last BigInt_def StringToBigInt_def js_def parseCode_def eval_parse)
  have wb: "writeBigUInt64BE (Buffer_alloc 8) 31 0 = Inr [0, 0, 0, 0, 0, 0, 0, 31]"
    using writeBigUInt64BE_ok [of 31] by (simp add: bigEndian_numeral)
  have r3: "writeUInt32BE (Buffer_alloc 4) (parseInt (slice (parseCode (js ''98765-43210'')) 0 (- 1))) 0
      = Inr [58, 222, 104, 177]"
    using registration_bytes [of "residue (js ''98765-43210'')"]
    by (simp add: slice_drop_last eval_code)
  have s3: "sliceFrom [0, 0, 0, 0, 0, 0, 0, 31 :: byte] 1 = [0, 0, 0, 0, 0, 0, 31]"
    by (simp add: sliceFrom_1)
  have s4: "slice [58, 222, 104, 177 :: byte] 2 4 = [104, 177]"
    by (simp add: slice_2_4)
  have 3: "generateOtpSecret (js ''12345-67890'') (js ''0x1F5'') (js ''98765-43210'') []
     = Inr (PBKDF2_HMAC_SHA256 [0, 0, 0, 0, 0, 0, 31, 104, 177]
             [49, 50, 51, 52, 53, 54, 55, 56, 57, 48] 8 16)"
    by (simp add: generateOtpSecret_def kdfInput_def Let_def b wb r3 s3 s4 u Buffer_concat_def pbkdf2Sync_def)
  have c: "BigInt (slice (parseCode (js ''12a5'')) 0 (- 1)) = Inl SyntaxError"
    by (simp add: slice_drop_last BigInt_def StringToBigInt_def js_def parseCode_def eval_parse)
  have 4: "generateOtpSecret (js ''12345-67890'') (js ''12a5'') (js ''98765-43210'') []
     = Inl SyntaxError"
    by (simp add: generateOtpSecret_def kdfInput_def Let_def c)
  from 1 2 3 4 show ?thesis by blast
qed

lemma prepend_Nil [simp]: "prepend [] r = r"
  by (cases r) (simp_all add: prepend_def)

lemma prepend_prepend [simp]: "prepend x (prepend y r) = prepend (x @ y) r"
  by (cases r) (simp_all add: prepend_def)

lemma prepend_Inr [simp]: "prepend x (Inr y) = Inr (x @ y)"
  by (simp add: prepend_def)

lemma unescaped_no_surrogate:
  "uriUnescaped c \<Longrightarrow> \<not> isHighSurrogate c \<and> \<not> isLowSurrogate c"
  by (auto simp add: uriUnescaped_def isAsciiAlphanumeric_def isHighSurrogate_def
      isLowSurrogate_def word_le_nat_alt)

lemma Encode_append:
  "wellFormed xs \<Longrightarrow>
     \<exists>lx. Encode xs = Inr lx \<and> (\<forall>ys. Encode (xs @ ys) = prepend lx (Encode ys))"
proof (induction xs rule: wellFormed.induct)
  case 1
  then show ?case by simp
next
  case (2 c)
  then have ns: "\<not> isHighSurrogate c" "\<not> isLowSurrogate c" by simp_all
  have "Encode ([c] @ ys) =
      prepend (if uriUnescaped c then [c] else percentOctets (utf8Octets (unat c))) (Encode ys)" for ys
    using ns by (cases ys) simp_all
  then show ?case using ns by auto
next
  case (3 c d cs)
  show ?case
  proof (cases "isHighSurrogate c \<and> isLowSurrogate d")
    case True
    then have nu: "\<not> uriUnescaped c" using unescaped_no_surrogate by blast
    from 3 True obtain l where l: "Encode cs = Inr l" "\<And>ys. Encode (cs @ ys) = prepend l (Encode ys)"
      by auto
    show ?thesis using True nu l by simp
  next
    case False
    with 3 have ns: "\<not> isHighSurrogate c" "\<not> isLowSurrogate c" and wf: "wellFormed (d # cs)"
      by (simp_all split: if_splits)
    from 3(2) [OF False] wf obtain l where
      l: "Encode (d # cs) = Inr l" "\<And>ys. Encode ((d # cs) @ ys) = prepend l (Encode ys)"
      by auto
    show ?thesis using False ns l by simp
  qed
qed

lemma Encode_colon: "Encode (js '':'') = Inr (js ''%3A'')"
  by (simp add: js_def uriUnescaped_def isAsciiAlphanumeric_def isHighSurrogate_def
      isLowSurrogate_def utf8Octets_def percentOctets_def percentOctet_def hexDigit_def)

lemma encode_label:
  assumes "wellFormed issuer" "wellFormed accountName"
  shows "\<exists>li la. encodeURIComponent issuer = Inr li \<and> encodeURIComponent accountName = Inr la
           \<and> encodeURIComponent (issuer @ js '':'' @ accountName) = Inr (li @ js ''%3A'' @ la)"
proof -
  obtain li where li: "Encode issuer = Inr li" "\<And>ys. Encode (issuer @ ys) = prepend li (Encode ys)"
    using Encode_append [OF assms(1)] by auto
  obtain la where la: "Encode accountName = Inr la"
    using Encode_append [OF assms(2)] by auto
  have "wellFormed (js '':'')"
    by (simp add: js_def isHighSurrogate_def isLowSurrogate_def)
  then have "Encode (js '':'' @ accountName) = prepend (js ''%3A'') (Encode accountName)"
    using Encode_append [of "js '':''"] by (auto simp add: Encode_colon)
  then show ?thesis using li la by (simp add: encodeURIComponent_def)
qed

lemma alnum_bounds: "isAsciiAlphanumeric c \<Longrightarrow> 0x30 \<le> unat c \<and> unat c \<le> 0x7A"
  by (auto simp add: isAsciiAlphanumeric_def word_le_nat_alt)

lemma ucast_byte_back:
  fixes c :: unit16
  assumes "unat c < 256"
  shows "(ucast (ucast c :: byte) :: unit16) = c"
proof -
  have "c < 2 ^ 8" using assms by (simp add: word_less_nat_alt)
  then have "c AND mask 8 = c" by (rule less_mask_eq)
  then have "take_bit 8 c = c" by (simp add: take_bit_eq_mask)
  then have "bit c n \<longleftrightarrow> n < 8 \<and> bit c n" for n
    by (metis bit_take_bit_iff)
  then show ?thesis
    by (intro bit_word_eqI) (auto simp add: bit_simps)
qed

lemma utf8Encode_alnum: "list_all isAsciiAlphanumeric s \<Longrightarrow> utf8Encode s = map ucast s"
proof (induction s rule: utf8Encode.induct)
  case 1
  then show ?case by simp
next
  case (2 c)
  then have b: "unat c < 0x80" and ns: "\<not> isHighSurrogate c" "\<not> isLowSurrogate c"
    using alnum_bounds [of c]
    by (auto simp add: isHighSurrogate_def isLowSurrogate_def word_le_nat_alt)
  show ?case using b ns by (simp add: utf8Octets_def)
next
  case (3 c d cs)
  then have b: "unat c < 0x80" and ns: "\<not> isHighSurrogate c" "\<not> isLowSurrogate c"
    using alnum_bounds [of c]
    by (auto simp add: isHighSurrogate_def isLowSurrogate_def word_le_nat_alt)
  show ?case using 3 b ns by (simp add: utf8Octets_def)
qed

lemma urlencodedByte_alnum:
  assumes "isAsciiAlphanumeric c"
  shows "urlencodedByte (ucast c) = [c]"
proof -
  have u: "unat c < 256" using alnum_bounds [OF assms] by simp
  have rt: "(ucast (ucast c :: byte) :: unit16) = c" by (rule ucast_byte_back [OF u])
  have "(ucast c :: byte) \<noteq> 0x20"
  proof
    assume "(ucast c :: byte) = 0x20"
    then have "(ucast (ucast c :: byte) :: unit16) = ucast (0x20 :: byte)" by simp
    then have "c = 0x20" using rt by simp
    then show False using assms by (simp add: isAsciiAlphanumeric_def)
  qed
  then show ?thesis using assms by (simp add: urlencodedByte_def rt)
qed

lemma urlencodedSerialize_alnum:
  "list_all isAsciiAlphanumeric s \<Longrightarrow> urlencodedSerialize s = s"
  by (induction s) (simp_all add: urlencodedSerialize_def utf8Encode_alnum urlencodedByte_alnum)

lemma base32Char_alnum: "isBase32Char c \<Longrightarrow> isAsciiAlphanumeric c"
  by (auto simp add: isBase32Char_def isAsciiAlphanumeric_def word_le_nat_alt)

lemma urlencodedSerialize_base32: "urlencodedSerialize (base32Encode data) = base32Encode data"
  using base32Encode_chars [of data]
  by (intro urlencodedSerialize_alnum) (auto simp add: list_all_iff base32Char_alnum)

lemma params_toString:
  "URLSearchParams_toString
     [(js ''secret'', base32Encode data), (js ''issuer'', issuer),
      (js ''algorithm'', js ''SHA256''), (js ''digits'', js ''6''), (js ''period'', js ''30'')]
   = js ''secret='' @ base32Encode data @ js ''&issuer='' @ urlencodedSerialize issuer
       @ js ''&algorithm=SHA256&digits=6&period=30''"
proof -
  have lits: "urlencodedSerialize (js ''secret'') = js ''secret''"
    "urlencodedSerialize (js ''issuer'') = js ''issuer''"
    "urlencodedSerialize (js ''algorithm'') = js ''algorithm''"
    "urlencodedSerialize (js ''SHA256'') = js ''SHA256''"
    "urlencodedSerialize (js ''digits'') = js ''digits''"
    "urlencodedSerialize (js ''6'') = js ''6''"
    "urlencodedSerialize (js ''period'') = js ''period''"
    "urlencodedSerialize (js ''30'') = js ''30''"
    by (rule urlencodedSerialize_alnum; simp add: js_def isAsciiAlphanumeric_def)+
  show ?thesis
    unfolding URLSearchParams_toString_def
    by (simp add: lits urlencodedSerialize_base32) (simp add: js_def)
qed

lemma generateOtpauthUri_eq:
  "generateOtpauthUri issuer accountName data =
     (case encodeURIComponent (issuer @ js '':'' @ accountName) of
        Inl e \<Rightarrow> Inl e
      | Inr label \<Rightarrow>
          Inr (js ''otpauth://totp/'' @ label @ js ''?secret='' @ base32Encode data
               @ js ''&issuer='' @ urlencodedSerialize issuer
               @ js ''&algorithm=SHA256&digits=6&period=30''))"
  unfolding generateOtpauthUri_def Let_def params_toString
  by (simp add: js_def split: sum.splits)

lemmas eval_uri = js_def uriUnescaped_def isAsciiAlphanumeric_def isHighSurrogate_def
  isLowSurrogate_def utf8Octets_def percentOctets_def percentOctet_def hexDigit_def
  urlencodedSerialize_def urlencodedByte_def

lemma base32_example:
  "base32Encode [255, 254, 253, 252, 251, 250, 249, 1, 2, 3, 4, 5, 6, 7, 8, 9]
     = js ''777P37H37L4QCAQDAQCQMBYIBE''"
  by (simp add: base32Encode_def base32_while.simps alphabet_def js_def)

text \<open>
  Claim C5, as stated: for every issuer and account name, \<^verbatim>\<open>generateOtpauthUri\<close>
  returns the URI. A JavaScript string may hold an unpaired surrogate, and
  \<^verbatim>\<open>encodeURIComponent\<close> throws a URIError on it: with the issuer made of the single code
  unit U+D83D no URI is returned.
\<close>

theorem unpaired_surrogate_issuer:
  "generateOtpauthUri [0xD83D] (js ''user@example.com'')
     [255, 254, 253, 252, 251, 250, 249, 1, 2, 3, 4, 5, 6, 7, 8, 9] = Inl URIError"
  by (simp add: generateOtpauthUri_eq encodeURIComponent_def eval_uri)

text \<open>
  Claim C5, amended: for every issuer and account name that are well-formed strings (no
  unpaired surrogate) and every secret, \<^verbatim>\<open>generateOtpauthUri\<close> returns
  \<^verbatim>\<open>otpauth://totp/\<close>, then the percent-encoding of the issuer, of the colon (as
  \<^verbatim>\<open>%3A\<close>) and of the account name, which together are the percent-encoding of
  \<^verbatim>\<open>issuer:accountName\<close> as one path segment, then \<^verbatim>\<open>?\<close> and the parameters
  \<^verbatim>\<open>secret\<close> (the Base32 text, which the query encoding leaves as it is),
  \<^verbatim>\<open>issuer\<close> (in the query encoding), \<^verbatim>\<open>algorithm=SHA256\<close>, \<^verbatim>\<open>digits=6\<close> and
  \<^verbatim>\<open>period=30\<close>, in this order.
\<close>

theorem otpauth_uri:
  assumes "wellFormed issuer" and "wellFormed accountName"
  shows "\<exists>li la.
           encodeURIComponent issuer = Inr li \<and> encodeURIComponent accountName = Inr la
         \<and> encodeURIComponent (issuer @ js '':'' @ accountName) = Inr (li @ js ''%3A'' @ la)
         \<and> generateOtpauthUri issuer accountName secretBuffer =
             Inr (js ''otpauth://totp/'' @ li @ js ''%3A'' @ la
                  @ js ''?secret='' @ base32Encode secretBuffer
                  @ js ''&issuer='' @ urlencodedSerialize issuer
                  @ js ''&algorithm=SHA256&digits=6&period=30'')"
proof -
  obtain li la where l: "encodeURIComponent issuer = Inr li" "encodeURIComponent accountName = Inr la"
    "encodeURIComponent (issuer @ js '':'' @ accountName) = Inr (li @ js ''%3A'' @ la)"
    using encode_label [OF assms] by blast
  have "generateOtpauthUri issuer accountName secretBuffer =
      Inr (js ''otpauth://totp/'' @ li @ js ''%3A'' @ la
           @ js ''?secret='' @ base32Encode secretBuffer
           @ js ''&issuer='' @ urlencodedSerialize issuer
           @ js ''&algorithm=SHA256&digits=6&period=30'')"
    by (simp add: generateOtpauthUri_eq l(3))
  with l show ?thesis by blast
qed

theorem otpauth_uri_witness:
  "wellFormed (js ''My Company'') \<and> wellFormed (js ''user@example.com'')
   \<and> generateOtpauthUri (js ''My Company'') (js ''user@example.com'')
         [255, 254, 253, 252, 251, 250, 249, 1, 2, 3, 4, 5, 6, 7, 8, 9]
       = Inr (js ''otpauth://totp/My%20Company%3Auser%40example.com?secret=777P37H37L4QCAQDAQCQMBYIBE&issuer=My+Company&algorithm=SHA256&digits=6&period=30'')"
proof -
  have h: "wellFormed (js ''My Company'')" "wellFormed (js ''user@example.com'')"
    by (simp_all add: js_def isHighSurrogate_def isLowSurrogate_def)
  have e: "encodeURIComponent (js ''My Company'') = Inr (js ''My%20Company'')"
    "encodeURIComponent (js ''user@example.com'') = Inr (js ''user%40example.com'')"
    by (simp_all add: encodeURIComponent_def eval_uri)
  have q: "urlencodedSerialize (js ''My Company'') = js ''My+Company''"
    by (simp add: eval_uri)
  obtain li la where l: "encodeURIComponent (js ''My Company'') = Inr li"
    "encodeURIComponent (js ''user@example.com'') = Inr la"
    "generateOtpauthUri (js ''My Company'') (js ''user@example.com'')
         [255, 254, 253, 252, 251, 250, 249, 1, 2, 3, 4, 5, 6, 7, 8, 9] =
       Inr (js ''otpauth://totp/'' @ li @ js ''%3A'' @ la
            @ js ''?secret='' @ base32Encode [255, 254, 253, 252, 251, 250, 249, 1, 2, 3, 4, 5, 6, 7, 8, 9]
            @ js ''&issuer='' @ urlencodedSerialize (js ''My Company'')
            @ js ''&algorithm=SHA256&digits=6&period=30'')"
    using otpauth_uri [OF h, of "[255, 254, 253, 252, 251, 250, 249, 1, 2, 3, 4, 5, 6, 7, 8, 9]"]
    by blast
  from l(1,2) e have "li = js ''My%20Company''" "la = js ''user%40example.com''" by simp_all
  then have "generateOtpauthUri (js ''My Company'') (js ''user@example.com'')
         [255, 254, 253, 252, 251, 250, 249, 1, 2, 3, 4, 5, 6, 7, 8, 9]
       = Inr (js ''otpauth://totp/My%20Company%3Auser%40example.com?secret=777P37H37L4QCAQDAQCQMBYIBE&issuer=My+Company&algorithm=SHA256&digits=6&period=30'')"
    using l(3) unfolding base32_example q by (simp add: js_def)
  with h show ?thesis by blast
qed

text \<open>
  Claim C6. For every byte sequence, the Base32 text the encoder returns holds no
  \<^verbatim>\<open>=\<close> and only characters from A to Z and 2 to 7; and every URI that
  \<^verbatim>\<open>generateOtpauthUri\<close> returns carries exactly this text as its \<^verbatim>\<open>secret\<close>
  parameter.
\<close>

theorem base32_no_padding:
  "list_all isBase32Char (base32Encode data)
   \<and> 0x3D \<notin> set (base32Encode data)
   \<and> (\<forall>issuer accountName uri.
         generateOtpauthUri issuer accountName data = Inr uri \<longrightarrow>
           (\<exists>label. uri = js ''otpauth://totp/'' @ label @ js ''?secret='' @ base32Encode data
                           @ js ''&issuer='' @ urlencodedSerialize issuer
                           @ js ''&algorithm=SHA256&digits=6&period=30''))"
proof -
  have 1: "list_all isBase32Char (base32Encode data)" by (rule base32Encode_chars)
  have "\<not> isBase32Char 0x3D" by (simp add: isBase32Char_def)
  with 1 have 2: "0x3D \<notin> set (base32Encode data)" by (auto simp add: list_all_iff)
  have 3: "\<exists>label. uri = js ''otpauth://totp/'' @ label @ js ''?secret='' @ base32Encode data
                           @ js ''&issuer='' @ urlencodedSerialize issuer
                           @ js ''&algorithm=SHA256&digits=6&period=30''"
    if "generateOtpauthUri issuer accountName data = Inr uri" for issuer accountName uri
    using that by (auto simp add: generateOtpauthUri_eq split: sum.splits)
  from 1 2 3 show ?thesis by blast
qed

theorem base32_no_padding_witness:
  "list_all isBase32Char (base32Encode [255, 254, 253, 252, 251, 250, 249, 1, 2, 3, 4, 5, 6, 7, 8, 9])
   \<and> 0x3D \<notin> set (base32Encode [255, 254, 253, 252, 251, 250, 249, 1, 2, 3, 4, 5, 6, 7, 8, 9])
   \<and> base32Encode [255, 254, 253, 252, 251, 250, 249, 1, 2, 3, 4, 5, 6, 7, 8, 9]
       = js ''777P37H37L4QCAQDAQCQMBYIBE''
   \<and> generateOtpauthUri (js ''Entrust'') (js ''alice'')
         [255, 254, 253, 252, 251, 250, 249, 1, 2, 3, 4, 5, 6, 7, 8, 9]
       = Inr (js ''otpauth://totp/Entrust%3Aalice?secret=777P37H37L4QCAQDAQCQMBYIBE&issuer=Entrust&algorithm=SHA256&digits=6&period=30'')
   \<and> (\<exists>label. js ''otpauth://totp/Entrust%3Aalice?secret=777P37H37L4QCAQDAQCQMBYIBE&issuer=Entrust&algorithm=SHA256&digits=6&period=30''
         = js ''otpauth://totp/'' @ label @ js ''?secret=''
           @ base32Encode [255, 254, 253, 252, 251, 250, 249, 1, 2, 3, 4, 5, 6, 7, 8, 9]
           @ js ''&issuer='' @ urlencodedSerialize (js ''Entrust'')
           @ js ''&algorithm=SHA256&digits=6&period=30'')"
proof -
  have g: "generateOtpauthUri (js ''Entrust'') (js ''alice'')
         [255, 254, 253, 252, 251, 250, 249, 1, 2, 3, 4, 5, 6, 7, 8, 9]
       = Inr (js ''otpauth://totp/Entrust%3Aalice?secret=777P37H37L4QCAQDAQCQMBYIBE&issuer=Entrust&algorithm=SHA256&digits=6&period=30'')"
    unfolding generateOtpauthUri_eq base32_example
    by (simp add: encodeURIComponent_def eval_uri)
  show ?thesis
    using base32_no_padding [of "[255, 254, 253, 252, 251, 250, 249, 1, 2, 3, 4, 5, 6, 7, 8, 9]"]
      g base32_example
    by blast
qed

end
